(* ===== verification/Prelude.thy ===== *)
theory Prelude
  imports Complex_Main "HOL-Library.Word" "HOL-Library.Char_ord" "HOL-Library.Sublist"
begin

text \<open>
  Shared vocabulary of the development: the result type of fallible code with its sequencing
  operators, C-locale character conversions, decimal printing of integers, bytes and the
  conversions between characters and bytes, and the generic facts about them that the component
  theories use.  The collections \<open>result_simps\<close>, \<open>text_simps\<close> and \<open>byte_simps\<close> carry those facts
  into the component proofs.
\<close>

named_theorems result_simps \<open>facts on the result type and its sequencing\<close>
named_theorems text_simps \<open>facts on characters and strings\<close>
named_theorems byte_simps \<open>facts on bytes and machine words\<close>

section \<open>Fallible computations\<close>

text \<open>
  \<open>Inl e\<close> is a thrown exception or an early error return, \<open>Inr v\<close> a normal result.
\<close>

type_synonym ('e, 'a) result = "'e + 'a"

definition bindE :: "('e, 'a) result \<Rightarrow> ('a \<Rightarrow> ('e, 'b) result) \<Rightarrow> ('e, 'b) result" where
  "bindE m f = (case m of Inl e \<Rightarrow> Inl e | Inr v \<Rightarrow> f v)"

definition guardE :: "bool \<Rightarrow> 'e \<Rightarrow> ('e, unit) result" where
  "guardE b e = (if b then Inr () else Inl e)"

primrec mapE :: "('a \<Rightarrow> ('e, 'b) result) \<Rightarrow> 'a list \<Rightarrow> ('e, 'b list) result" where
  "mapE f [] = Inr []"
| "mapE f (x # xs) = bindE (f x) (\<lambda>y. bindE (mapE f xs) (\<lambda>ys. Inr (y # ys)))"

primrec foldE :: "('s \<Rightarrow> 'a \<Rightarrow> ('e, 's) result) \<Rightarrow> 's \<Rightarrow> 'a list \<Rightarrow> ('e, 's) result" where
  "foldE f s [] = Inr s"
| "foldE f s (x # xs) = bindE (f s x) (\<lambda>s'. foldE f s' xs)"

lemma bindE_simps [simp, code]:
  "bindE (Inl e) f = Inl e"
  "bindE (Inr v) f = f v"
  by (simp_all add: bindE_def)

lemma bindE_Inr_iff [result_simps]:
  "bindE m f = Inr w \<longleftrightarrow> (\<exists>v. m = Inr v \<and> f v = Inr w)"
  by (cases m) auto

lemma bindE_Inl_iff [result_simps]:
  "bindE m f = Inl e \<longleftrightarrow> m = Inl e \<or> (\<exists>v. m = Inr v \<and> f v = Inl e)"
  by (cases m) auto

lemma guardE_Inr_iff [result_simps]: "guardE b e = Inr u \<longleftrightarrow> b"
  by (simp add: guardE_def)

lemma guardE_Inl_iff [result_simps]: "guardE b e = Inl e' \<longleftrightarrow> \<not> b \<and> e' = e"
  by (auto simp: guardE_def)

lemma guardE_simps [simp]: "guardE True e = Inr ()" "guardE False e = Inl e"
  by (simp_all add: guardE_def)

lemma mapE_Inr_iff:
  "mapE f xs = Inr ys \<longleftrightarrow> list_all2 (\<lambda>x y. f x = Inr y) xs ys"
  by (induction xs arbitrary: ys) (auto simp: result_simps list_all2_Cons1)

lemma mapE_length: "mapE f xs = Inr ys \<Longrightarrow> length ys = length xs"
  by (simp add: mapE_Inr_iff list_all2_lengthD)

lemma mapE_set: "mapE f xs = Inr ys \<Longrightarrow> y \<in> set ys \<Longrightarrow> \<exists>x \<in> set xs. f x = Inr y"
  by (induction xs arbitrary: ys) (auto simp: result_simps)

lemma foldE_append: "foldE f s (xs @ ys) = bindE (foldE f s xs) (\<lambda>s'. foldE f s' ys)"
  by (induction xs arbitrary: s) (auto simp: bindE_def split: sum.splits)

text \<open>An invariant that every step of a loop keeps holds for the loop's result.\<close>

lemma foldE_invariant:
  assumes "foldE f s xs = Inr s'" and "P s"
    and "\<And>s x s'. x \<in> set xs \<Longrightarrow> P s \<Longrightarrow> f s x = Inr s' \<Longrightarrow> P s'"
  shows "P s'"
  using assms
proof (induction xs arbitrary: s)
  case Nil
  then show ?case by simp
next
  case (Cons x xs)
  from Cons.prems(1) obtain t where t: "f s x = Inr t" "foldE f t xs = Inr s'"
    by (auto simp: result_simps)
  from Cons.prems(2,3) t(1) have "P t" by auto
  with t(2) Cons.prems(3) show ?case by (auto intro: Cons.IH)
qed

section \<open>Characters and strings\<close>

text \<open>\<open>toupper\<close> and \<open>tolower\<close> of the C locale: only the ASCII letters change.\<close>

definition char_lower :: "char \<Rightarrow> char" where
  "char_lower c = (let n = of_char c :: nat in if 65 \<le> n \<and> n \<le> 90 then char_of (n + 32) else c)"

definition char_upper :: "char \<Rightarrow> char" where
  "char_upper c = (let n = of_char c :: nat in if 97 \<le> n \<and> n \<le> 122 then char_of (n - 32) else c)"

definition to_lower :: "string \<Rightarrow> string" where
  "to_lower = map char_lower"

definition to_upper :: "string \<Rightarrow> string" where
  "to_upper = map char_upper"

lemma of_char_less_256 [text_simps]: "(of_char c :: nat) < 256"
  by (metis of_char_mod_256 mod_less_divisor zero_less_numeral)

lemma char_upper_idem [simp]: "char_upper (char_upper c) = char_upper c"
  using of_char_less_256 [of c] by (auto simp: char_upper_def Let_def)

lemma char_lower_idem [simp]: "char_lower (char_lower c) = char_lower c"
  using of_char_less_256 [of c] by (auto simp: char_lower_def Let_def)

lemma char_upper_lower [simp]: "char_upper (char_lower c) = char_upper c"
  using of_char_less_256 [of c] by (auto simp: char_lower_def char_upper_def Let_def)

lemma to_upper_idem [simp]: "to_upper (to_upper s) = to_upper s"
  by (simp add: to_upper_def)

lemma to_lower_idem [simp]: "to_lower (to_lower s) = to_lower s"
  by (simp add: to_lower_def)

lemma to_upper_lower [simp]: "to_upper (to_lower s) = to_upper s"
  by (simp add: to_upper_def to_lower_def)

lemma length_to_upper [simp]: "length (to_upper s) = length s"
  by (simp add: to_upper_def)

lemma to_upper_eq_Nil_iff [simp]: "to_upper s = [] \<longleftrightarrow> s = []"
  by (simp add: to_upper_def)

text \<open>Decimal representation, as an output stream or \<open>printf\<close> writes an integer.\<close>

fun dec_of_nat :: "nat \<Rightarrow> string" where
  "dec_of_nat n = (if n < 10 then [char_of (48 + n)] else dec_of_nat (n div 10) @ [char_of (48 + n mod 10)])"

declare dec_of_nat.simps [simp del]

definition dec_of_int :: "int \<Rightarrow> string" where
  "dec_of_int i = (if i < 0 then CHR ''-'' # dec_of_nat (nat (- i)) else dec_of_nat (nat i))"

section \<open>Ordered maps with string keys\<close>

text \<open>\<open>std::string\<close>'s \<open>operator<\<close>: lexicographic on unsigned characters.\<close>

fun string_less :: "string \<Rightarrow> string \<Rightarrow> bool" where
  "string_less [] [] = False"
| "string_less [] (_ # _) = True"
| "string_less (_ # _) [] = False"
| "string_less (c # cs) (d # ds) =
     (if c = d then string_less cs ds else (of_char c :: nat) < of_char d)"

lemma string_less_irrefl [simp]: "\<not> string_less s s"
  by (induction s) auto

lemma string_less_trans: "string_less a b \<Longrightarrow> string_less b c \<Longrightarrow> string_less a c"
proof (induction a b arbitrary: c rule: string_less.induct)
  case (4 x xs y ys)
  then show ?case
    by (cases c) (auto split: if_splits dest: less_trans less_asym)
qed (auto elim: string_less.elims)

lemma string_less_linear: "string_less a b \<or> a = b \<or> string_less b a"
proof (induction a b rule: string_less.induct)
  case (4 x xs y ys)
  then show ?case by (cases "x = y") (auto simp: of_char_eq_iff neq_iff)
qed auto

text \<open>
  \<open>std::map\<close> with string keys is an association list in key order: \<open>smap_insert\<close> is \<open>insert\<close>, which
  keeps an entry that is there, and \<open>smap_set\<close> is assignment through \<open>operator[]\<close>.
\<close>

fun smap_insert :: "string \<Rightarrow> 'a \<Rightarrow> (string \<times> 'a) list \<Rightarrow> (string \<times> 'a) list" where
  "smap_insert k v [] = [(k, v)]"
| "smap_insert k v ((k', v') # m) =
     (if k = k' then (k', v') # m
      else if string_less k k' then (k, v) # (k', v') # m
      else (k', v') # smap_insert k v m)"

fun smap_set :: "string \<Rightarrow> 'a \<Rightarrow> (string \<times> 'a) list \<Rightarrow> (string \<times> 'a) list" where
  "smap_set k v [] = [(k, v)]"
| "smap_set k v ((k', v') # m) =
     (if k = k' then (k', v) # m
      else if string_less k k' then (k, v) # (k', v') # m
      else (k', v') # smap_set k v m)"

definition smap_wf :: "(string \<times> 'a) list \<Rightarrow> bool" where
  "smap_wf m \<longleftrightarrow> sorted_wrt string_less (map fst m)"

lemma smap_wf_simps [simp]:
  "smap_wf []"
  "smap_wf ((k, v) # m) \<longleftrightarrow> (\<forall>k' \<in> fst ` set m. string_less k k') \<and> smap_wf m"
  by (auto simp: smap_wf_def)

lemma smap_wf_distinct: "smap_wf m \<Longrightarrow> distinct (map fst m)"
  by (induction m) (auto simp: smap_wf_def)

lemma fst_set_smap_insert [simp]: "fst ` set (smap_insert k v m) = insert k (fst ` set m)"
  by (induction k v m rule: smap_insert.induct) auto

lemma set_smap_insert: "x \<in> set (smap_insert k v m) \<Longrightarrow> x = (k, v) \<or> x \<in> set m"
  by (induction k v m rule: smap_insert.induct) (auto split: if_splits)

lemma fst_set_smap_set [simp]: "fst ` set (smap_set k v m) = insert k (fst ` set m)"
  by (induction k v m rule: smap_set.induct) auto

lemma smap_wf_insert [simp]: "smap_wf m \<Longrightarrow> smap_wf (smap_insert k v m)"
  using string_less_linear
  by (induction k v m rule: smap_insert.induct) (auto intro: string_less_trans)

lemma smap_wf_set [simp]: "smap_wf m \<Longrightarrow> smap_wf (smap_set k v m)"
  using string_less_linear
  by (induction k v m rule: smap_set.induct) (auto intro: string_less_trans)

lemma smap_tail_None: "(\<forall>k' \<in> fst ` set m. string_less k k') \<Longrightarrow> map_of m k = None"
  by (induction m) auto

lemma map_of_smap_insert:
  "smap_wf m \<Longrightarrow>
    map_of (smap_insert k v m) = (if map_of m k = None then (map_of m)(k \<mapsto> v) else map_of m)"
proof (induction k v m rule: smap_insert.induct)
  case (2 k v k' v' m)
  have "string_less k k' \<Longrightarrow> map_of m k = None"
    using 2(2) by (auto intro!: smap_tail_None intro: string_less_trans)
  then show ?case using 2 by (auto simp: fun_upd_twist split: if_splits)
qed simp

lemma map_of_smap_set: "smap_wf m \<Longrightarrow> map_of (smap_set k v m) = (map_of m)(k \<mapsto> v)"
  by (induction k v m rule: smap_set.induct) (auto simp: fun_upd_twist)

end
