(* ===== verification/Json_Value.thy ===== *)
theory Json_Value
  imports Prelude
begin

text \<open>
  The values of the bundled jsoncpp library (\<open>third_party/jsoncpp/jsoncpp.cpp\<close>) and the accessors
  the metadata code calls.  An object is the association list of its members in the iteration
  order of the underlying \<open>std::map\<close> (ascending keys); strings are the NUL-terminated strings the
  library stores.  \<open>JSON_FAIL_MESSAGE\<close> and \<open>JSON_ASSERT_MESSAGE\<close> throw \<open>std::runtime_error\<close>;
  \<open>JSON_ASSERT\<close> is the C \<open>assert\<close>, which no handler catches.  Text parsing and the text writer are
  parameters of the theories that use them.
\<close>

section \<open>Exceptions\<close>

text \<open>
  The exceptions of \<open>uptane/exceptions.h\<close> with the arguments of their constructors, and the other
  exceptions that reach the metadata code: \<open>TimeStamp::InvalidTimeStamp\<close>, \<open>std::runtime_error\<close>,
  \<open>std::out_of_range\<close>, exceptions escaping from the cryptographic libraries, and the failure of an
  assertion, which terminates the process.
\<close>

datatype exn =
    UptaneException string string
  | SecurityException string string
  | TargetHashMismatch string
  | OversizedTarget string
  | IllegalThreshold string string
  | MissingRepo string
  | UnmetThreshold string string
  | ExpiredMetadata string string
  | InvalidMetadata string string string
  | IllegalRsaKeySize string
  | MissMatchTarget string
  | NonUniqueSignatures string string
  | BadKeyId string
  | BadEcuId string
  | BadHardwareId string
  | InvalidTimeStamp
  | RuntimeError string
  | OutOfRange string
  | CryptoFailure string
  | AssertFail

text \<open>What \<open>catch (const Uptane::Exception &)\<close> catches.\<close>

fun is_uptane_exception :: "exn \<Rightarrow> bool" where
  "is_uptane_exception InvalidTimeStamp = False"
| "is_uptane_exception (RuntimeError _) = False"
| "is_uptane_exception (OutOfRange _) = False"
| "is_uptane_exception (CryptoFailure _) = False"
| "is_uptane_exception AssertFail = False"
| "is_uptane_exception _ = True"

text \<open>What \<open>catch (const std::exception &)\<close> catches.\<close>

fun is_std_exception :: "exn \<Rightarrow> bool" where
  "is_std_exception AssertFail = False"
| "is_std_exception _ = True"

lemma uptane_exception_is_std: "is_uptane_exception e \<Longrightarrow> is_std_exception e"
  by (cases e) auto

section \<open>Values\<close>

datatype json =
    JNull
  | JInt int
  | JUInt nat
  | JReal rat
  | JString string
  | JBool bool
  | JArray "json list"
  | JObject "(string \<times> json) list"

abbreviation min_int32 :: int where "min_int32 \<equiv> - (2 ^ 31)"
abbreviation max_int32 :: int where "max_int32 \<equiv> 2 ^ 31 - 1"
abbreviation min_int64 :: int where "min_int64 \<equiv> - (2 ^ 63)"
abbreviation max_int64 :: int where "max_int64 \<equiv> 2 ^ 63 - 1"
abbreviation max_uint64 :: int where "max_uint64 \<equiv> 2 ^ 64 - 1"

text \<open>Conversion of a floating-point value to an integer type truncates towards zero.\<close>

definition trunc_rat :: "rat \<Rightarrow> int" where
  "trunc_rat r = (if 0 \<le> r then \<lfloor>r\<rfloor> else \<lceil>r\<rceil>)"

fun isNull :: "json \<Rightarrow> bool" where
  "isNull JNull = True"
| "isNull _ = False"

fun isObject :: "json \<Rightarrow> bool" where
  "isObject JNull = True"
| "isObject (JObject _) = True"
| "isObject _ = False"

fun isArray :: "json \<Rightarrow> bool" where
  "isArray JNull = True"
| "isArray (JArray _) = True"
| "isArray _ = False"

fun isString :: "json \<Rightarrow> bool" where
  "isString (JString _) = True"
| "isString _ = False"

fun isIntegral :: "json \<Rightarrow> bool" where
  "isIntegral (JInt _) = True"
| "isIntegral (JUInt _) = True"
| "isIntegral (JBool _) = True"
| "isIntegral _ = False"

fun asString :: "json \<Rightarrow> (exn, string) result" where
  "asString JNull = Inr ''''"
| "asString (JString s) = Inr s"
| "asString (JBool b) = Inr (if b then ''true'' else ''false'')"
| "asString _ = Inl (RuntimeError ''Type is not convertible to string'')"

fun asInt :: "json \<Rightarrow> (exn, int) result" where
  "asInt JNull = Inr 0"
| "asInt (JInt i) =
     (if min_int32 \<le> i \<and> i \<le> max_int32 then Inr i
      else Inl (RuntimeError ''unsigned integer out of signed int range''))"
| "asInt (JUInt n) =
     (if int n \<le> max_int32 then Inr (int n)
      else Inl (RuntimeError ''unsigned integer out of signed int range''))"
| "asInt (JReal r) =
     (if of_int min_int32 \<le> r \<and> r \<le> of_int max_int32 then Inr (trunc_rat r)
      else Inl (RuntimeError ''Real out of signed integer range''))"
| "asInt (JBool b) = Inr (if b then 1 else 0)"
| "asInt _ = Inl (RuntimeError ''Type is not convertible to int'')"

text \<open>
  \<open>asInt64\<close> and \<open>asUInt64\<close> convert a floating-point value through the 32-bit types \<open>Int\<close> and
  \<open>UInt\<close>; a value outside their range is undefined behaviour there, modelled as \<open>AssertFail\<close>.
\<close>

fun asInt64 :: "json \<Rightarrow> (exn, int) result" where
  "asInt64 JNull = Inr 0"
| "asInt64 (JInt i) = Inr i"
| "asInt64 (JUInt n) =
     (if int n \<le> max_int64 then Inr (int n)
      else Inl (RuntimeError ''unsigned integer out of Int64 range''))"
| "asInt64 (JReal r) =
     (if of_int min_int64 \<le> r \<and> r \<le> of_int max_int64
      then (if min_int32 \<le> trunc_rat r \<and> trunc_rat r \<le> max_int32 then Inr (trunc_rat r)
            else Inl AssertFail)
      else Inl (RuntimeError ''Real out of Int64 range''))"
| "asInt64 (JBool b) = Inr (if b then 1 else 0)"
| "asInt64 _ = Inl (RuntimeError ''Type is not convertible to Int64'')"

fun asUInt64 :: "json \<Rightarrow> (exn, nat) result" where
  "asUInt64 JNull = Inr 0"
| "asUInt64 (JInt i) =
     (if 0 \<le> i then Inr (nat i)
      else Inl (RuntimeError ''Negative integer can not be converted to UInt64''))"
| "asUInt64 (JUInt n) = Inr n"
| "asUInt64 (JReal r) =
     (if 0 \<le> r \<and> r \<le> of_int max_uint64
      then (if trunc_rat r < 2 ^ 32 then Inr (nat (trunc_rat r)) else Inl AssertFail)
      else Inl (RuntimeError ''Real out of UInt64 range''))"
| "asUInt64 (JBool b) = Inr (if b then 1 else 0)"
| "asUInt64 _ = Inl (RuntimeError ''Type is not convertible to UInt64'')"

text \<open>\<open>operator[](const char *)\<close>: a missing member reads as null, a value of another type asserts.\<close>

fun json_get :: "json \<Rightarrow> string \<Rightarrow> (exn, json) result" where
  "json_get JNull k = Inr JNull"
| "json_get (JObject ms) k = Inr (case map_of ms k of None \<Rightarrow> JNull | Some v \<Rightarrow> v)"
| "json_get _ k = Inl AssertFail"

fun isMember :: "json \<Rightarrow> string \<Rightarrow> (exn, bool) result" where
  "isMember JNull k = Inr False"
| "isMember (JObject ms) k = Inr (k \<in> fst ` set ms)"
| "isMember _ k = Inl AssertFail"

text \<open>A chain of \<open>operator[]\<close> applications.\<close>

fun json_path :: "json \<Rightarrow> string list \<Rightarrow> (exn, json) result" where
  "json_path j [] = Inr j"
| "json_path j (k # ks) = bindE (json_get j k) (\<lambda>v. json_path v ks)"

text \<open>
  Iteration from \<open>begin()\<close> to \<open>end()\<close>: the pairs of \<open>key()\<close> and value.  The key of an array
  element is its index, an unsigned integer; a value that is neither array nor object has none.
\<close>

fun json_items :: "json \<Rightarrow> (json \<times> json) list" where
  "json_items (JObject ms) = map (\<lambda>(k, v). (JString k, v)) ms"
| "json_items (JArray vs) = zip (map JUInt [0 ..< length vs]) vs"
| "json_items _ = []"

fun json_size :: "json \<Rightarrow> nat" where
  "json_size (JArray vs) = length vs"
| "json_size (JObject ms) = length ms"
| "json_size _ = 0"

lemma length_json_items [simp]: "length (json_items j) = json_size j"
  by (cases j) auto

lemma asInt_range: "asInt j = Inr i \<Longrightarrow> min_int32 \<le> i \<and> i \<le> max_int32"
proof (cases j)
  case (JReal r)
  assume "asInt j = Inr i"
  with JReal have r: "of_int min_int32 \<le> r" "r \<le> of_int max_int32" and i: "i = trunc_rat r"
    by (auto split: if_splits)
  show ?thesis
    using r unfolding i trunc_rat_def
    by (auto simp: floor_le_iff le_floor_iff ceiling_le_iff le_ceiling_iff)
qed (auto split: if_splits)

end
