(* ===== verification/Tuf_Types.thy ===== *)
theory Tuf_Types
  imports Json_Value
begin

text \<open>
  The data types of \<open>uptane/tuf.h\<close>: repository types, roles and metadata versions
  (\<open>tuf.h\<close>, \<open>role.cc\<close>), hardware identifiers and ECU serials, file hashes and targets (\<open>tuf.h\<close>,
  \<open>tuf.cc\<close>), and the RFC 3339 time stamps of \<open>utilities/types.cc\<close>.
\<close>

section \<open>Repositories, roles and versions\<close>

datatype repository_type = kUnknownRepo | kImage | kDirector

fun RepositoryType_toString :: "repository_type \<Rightarrow> string" where
  "RepositoryType_toString kDirector = ''director''"
| "RepositoryType_toString kImage = ''image''"
| "RepositoryType_toString kUnknownRepo = ''''"

definition RepositoryType_ctor :: "string \<Rightarrow> (exn, repository_type) result" where
  "RepositoryType_ctor s =
     (if s = ''director'' then Inr kDirector
      else if s = ''image'' then Inr kImage
      else Inl (RuntimeError (''Incorrect repo type: '' @ s)))"

datatype role = kRoot | kSnapshot | kTargets | kTimestamp | kInvalidRole

definition Role_ctor :: "string \<Rightarrow> role" where
  "Role_ctor role_name =
     (let role_name_lower = to_lower role_name
      in if role_name_lower = ''root'' then kRoot
         else if role_name_lower = ''snapshot'' then kSnapshot
         else if role_name_lower = ''targets'' then kTargets
         else if role_name_lower = ''timestamp'' then kTimestamp
         else kInvalidRole)"

fun Role_ToString :: "role \<Rightarrow> string" where
  "Role_ToString kRoot = ''root''"
| "Role_ToString kSnapshot = ''snapshot''"
| "Role_ToString kTargets = ''targets''"
| "Role_ToString kTimestamp = ''timestamp''"
| "Role_ToString kInvalidRole = ''invalidrole''"

fun Role_ToInt :: "role \<Rightarrow> int" where
  "Role_ToInt kRoot = 0"
| "Role_ToInt kSnapshot = 1"
| "Role_ToInt kTargets = 2"
| "Role_ToInt kTimestamp = 3"
| "Role_ToInt kInvalidRole = -1"

text \<open>\<open>operator<\<close> on roles compares the enumerators, which makes them a linear order.\<close>

instantiation role :: linorder
begin

definition less_eq_role :: "role \<Rightarrow> role \<Rightarrow> bool" where
  "less_eq_role a b \<longleftrightarrow> Role_ToInt a \<le> Role_ToInt b"

definition less_role :: "role \<Rightarrow> role \<Rightarrow> bool" where
  "less_role a b \<longleftrightarrow> Role_ToInt a < Role_ToInt b"

instance
proof
  fix a b :: role
  show "a \<le> b \<Longrightarrow> b \<le> a \<Longrightarrow> a = b"
    by (cases a; cases b) (auto simp: less_eq_role_def)
qed (auto simp: less_eq_role_def less_role_def)

end

lemma Role_ctor_ToString: "Role_ctor (Role_ToString r) = r"
  by (cases r) (simp_all add: Role_ctor_def to_lower_def char_lower_def)

text \<open>The names the metadata files carry in their \<open>_type\<close> field.\<close>

lemma Role_ctor_type_names [simp]:
  "Role_ctor ''Root'' = kRoot" "Role_ctor ''Targets'' = kTargets"
  "Role_ctor ''Timestamp'' = kTimestamp" "Role_ctor ''Snapshot'' = kSnapshot"
  by code_simp+

text \<open>\<open>ANY_VERSION\<close> is -1; a role's file name carries the version only when one is asked for.\<close>

definition ANY_VERSION :: int where "ANY_VERSION = -1"

definition Version_RoleFileName :: "int \<Rightarrow> role \<Rightarrow> string" where
  "Version_RoleFileName version r =
     (if version \<noteq> ANY_VERSION then dec_of_int version @ ''.'' else '''') @ Role_ToString r @ ''.json''"

section \<open>Hardware identifiers and ECU serials\<close>

definition HardwareIdentifier_ctor :: "string \<Rightarrow> (exn, string) result" where
  "HardwareIdentifier_ctor hwid =
     (if 200 < length hwid then Inl (OutOfRange ''Hardware Identifier too long'') else Inr hwid)"

definition EcuSerial_ctor :: "string \<Rightarrow> (exn, string) result" where
  "EcuSerial_ctor ecu_serial =
     (if length ecu_serial < 1 then Inl (OutOfRange ''Ecu serial identifier is too short'')
      else if 64 < length ecu_serial then Inl (OutOfRange ''Ecu serial identifier is too long'')
      else Inr ecu_serial)"

section \<open>Time stamps\<close>

text \<open>The default constructor makes the invalid time stamp, whose text is empty.\<close>

definition TimeStamp_ctor :: "string \<Rightarrow> (exn, string) result" where
  "TimeStamp_ctor rfc3339 =
     (if length rfc3339 \<noteq> 20 \<or> rfc3339 ! 19 \<noteq> CHR ''Z'' then Inl InvalidTimeStamp else Inr rfc3339)"

definition TimeStamp_IsValid :: "string \<Rightarrow> bool" where
  "TimeStamp_IsValid t \<longleftrightarrow> length t \<noteq> 0"

definition TimeStamp_less :: "string \<Rightarrow> string \<Rightarrow> bool" where
  "TimeStamp_less a b \<longleftrightarrow> TimeStamp_IsValid a \<and> TimeStamp_IsValid b \<and> string_less a b"

definition TimeStamp_IsExpiredAt :: "string \<Rightarrow> string \<Rightarrow> bool" where
  "TimeStamp_IsExpiredAt t now =
     (if \<not> TimeStamp_IsValid t then True
      else if \<not> TimeStamp_IsValid now then True
      else TimeStamp_less t now)"

section \<open>Hashes\<close>

datatype hash_type = kSha256 | kSha512 | kUnknownAlgorithm

record hash =
  h_type :: hash_type
  h_value :: string

definition Hash_of_type :: "hash_type \<Rightarrow> string \<Rightarrow> hash" where
  "Hash_of_type t h = \<lparr>h_type = t, h_value = to_upper h\<rparr>"

definition Hash_ctor :: "string \<Rightarrow> string \<Rightarrow> hash" where
  "Hash_ctor t h =
     \<lparr>h_type = (if t = ''sha512'' then kSha512 else if t = ''sha256'' then kSha256
                   else kUnknownAlgorithm),
      h_value = to_upper h\<rparr>"

definition HaveAlgorithm :: "hash \<Rightarrow> bool" where
  "HaveAlgorithm h \<longleftrightarrow> h_type h \<noteq> kUnknownAlgorithm"

fun hash_type_string :: "hash_type \<Rightarrow> string" where
  "hash_type_string kSha256 = ''sha256''"
| "hash_type_string kSha512 = ''sha512''"
| "hash_type_string kUnknownAlgorithm = ''unknown''"

definition Hash_TypeString :: "hash \<Rightarrow> string" where
  "Hash_TypeString h = hash_type_string (h_type h)"

fun hash_priority :: "hash_type \<Rightarrow> nat" where
  "hash_priority kSha256 = 0"
| "hash_priority kSha512 = 1"
| "hash_priority kUnknownAlgorithm = 2"

text \<open>\<open>encodeVector\<close>: \<open>type:value\<close> items separated by semicolons.\<close>

fun encodeVector :: "hash list \<Rightarrow> string" where
  "encodeVector [] = ''''"
| "encodeVector [h] = Hash_TypeString h @ '':'' @ h_value h"
| "encodeVector (h # hs) = Hash_TypeString h @ '':'' @ h_value h @ '';'' @ encodeVector hs"

text \<open>
  \<open>s.find(c)\<close> splits a string at the first occurrence of \<open>c\<close>: the part before it, and the part
  after it when there is one (\<open>None\<close> is \<open>npos\<close>).
\<close>

fun split_first :: "char \<Rightarrow> string \<Rightarrow> string \<times> string option" where
  "split_first c [] = ([], None)"
| "split_first c (x # xs) =
     (if x = c then ([], Some xs) else (case split_first c xs of (a, b) \<Rightarrow> (x # a, b)))"

lemma split_first_length: "split_first c s = (a, Some b) \<Longrightarrow> length b < length s"
  by (induction s arbitrary: a) (auto split: if_splits prod.splits)

text \<open>The loop of \<open>decodeVector\<close>; an empty item and an item without a colon end it.\<close>

function decodeVector :: "string \<Rightarrow> hash list" where
  "decodeVector cs =
     (if cs = [] then []
      else (case split_first (CHR '';'') cs of (hash_token, rest) \<Rightarrow>
        (let cs' = (case rest of None \<Rightarrow> '''' | Some r \<Rightarrow> r)
         in if hash_token = [] then []
            else (case split_first (CHR '':'') hash_token of
                    (hash_type_str, None) \<Rightarrow> []
                  | (hash_type_str, Some hash_value_str) \<Rightarrow>
                      (let h = Hash_ctor hash_type_str hash_value_str
                       in (if hash_value_str \<noteq> [] \<and> h_type h \<noteq> kUnknownAlgorithm
                           then h # decodeVector cs' else decodeVector cs'))))))"
  by pat_completeness auto
termination
  by (relation "measure length") (auto split: option.splits dest: split_first_length sym)

declare decodeVector.simps [simp del]

lemma decodeVector_Nil [simp]: "decodeVector [] = []"
  by (subst decodeVector.simps) simp

lemma split_first_append:
  "c \<notin> set a \<Longrightarrow> split_first c (a @ c # b) = (a, Some b)"
  by (induction a) auto

lemma split_first_none: "c \<notin> set a \<Longrightarrow> split_first c a = (a, None)"
  by (induction a) auto

lemma hash_type_string_no_separators:
  "CHR '';'' \<notin> set (hash_type_string t)" "CHR '':'' \<notin> set (hash_type_string t)"
  by (cases t; simp)+

text \<open>Every constructor upper-cases the digest; equality of hashes relies on it.\<close>

definition Hash_wf :: "hash \<Rightarrow> bool" where
  "Hash_wf h \<longleftrightarrow> to_upper (h_value h) = h_value h"

lemma Hash_ctor_wf [simp]: "Hash_wf (Hash_ctor t v)" "Hash_wf (Hash_of_type k v)"
  by (simp_all add: Hash_wf_def Hash_ctor_def Hash_of_type_def)

lemma Hash_ctor_type_string:
  assumes "Hash_wf h"
  shows "Hash_ctor (Hash_TypeString h) (h_value h) = h"
  using assms
  by (cases h; cases "h_type h") (simp_all add: Hash_ctor_def Hash_TypeString_def Hash_wf_def)

lemma encodeVector_Cons:
  "encodeVector (h # hs) =
     Hash_TypeString h @ CHR '':'' # h_value h @ (if hs = [] then [] else CHR '';'' # encodeVector hs)"
  by (cases hs) auto

lemma decodeVector_item:
  assumes "CHR '';'' \<notin> set (h_value h)" and "Hash_wf h" and "rest = [] \<or> rest = CHR '';'' # cs"
  shows "decodeVector (Hash_TypeString h @ CHR '':'' # h_value h @ rest) =
     (if HaveAlgorithm h \<and> h_value h \<noteq> [] then [h] else []) @ decodeVector (drop 1 rest)"
proof -
  let ?tok = "Hash_TypeString h @ CHR '':'' # h_value h"
  have tok: "CHR '';'' \<notin> set ?tok"
    using assms(1) by (simp add: Hash_TypeString_def hash_type_string_no_separators)
  have cut: "split_first (CHR '';'') (?tok @ rest)
      = (?tok, if rest = [] then None else Some (drop 1 rest))"
    using assms(3) split_first_append [OF tok] split_first_none [OF tok] by auto
  have item: "split_first (CHR '':'') ?tok = (Hash_TypeString h, Some (h_value h))"
    by (rule split_first_append) (simp add: Hash_TypeString_def hash_type_string_no_separators)
  have ne: "?tok @ rest \<noteq> []" by simp
  have "decodeVector (?tok @ rest) =
      (if HaveAlgorithm h \<and> h_value h \<noteq> [] then [h] else []) @ decodeVector (drop 1 rest)"
    using assms(2,3) ne
    by (subst decodeVector.simps, simp only: cut item prod.case option.case Let_def)
      (auto simp: HaveAlgorithm_def Hash_ctor_type_string decodeVector_Nil)
  then show ?thesis by simp
qed

lemma decodeVector_encodeVector_filter:
  assumes "\<forall>h \<in> set hs. Hash_wf h \<and> CHR '';'' \<notin> set (h_value h)"
  shows "decodeVector (encodeVector hs) = filter (\<lambda>h. HaveAlgorithm h \<and> h_value h \<noteq> []) hs"
  using assms
proof (induction hs)
  case Nil
  show ?case by simp
next
  case (Cons h hs)
  then show ?case
    using decodeVector_item [of h "[]"]
    by (cases "hs = []") (simp_all add: encodeVector_Cons decodeVector_item)
qed

section \<open>Targets\<close>

record target =
  t_valid :: bool
  t_filename :: string
  t_type :: string
  t_ecus :: "(string \<times> string) list"
  t_hashes :: "hash list"
  t_hwids :: "string list"
  t_custom_version :: string
  t_length :: nat
  t_correlation_id :: string

definition empty_target :: "string \<Rightarrow> target" where
  "empty_target filename =
     \<lparr>t_valid = True, t_filename = filename, t_type = '''', t_ecus = [], t_hashes = [], t_hwids = [],
      t_custom_version = '''', t_length = 0, t_correlation_id = ''''\<rparr>"

text \<open>\<open>std::sort\<close> by the algorithm's enumerator, higher priority first.\<close>

definition sort_hashes :: "hash list \<Rightarrow> hash list" where
  "sort_hashes = sort_key (\<lambda>h. hash_priority (h_type h))"

text \<open>The part of the constructor that reads the \<open>custom\<close> object.\<close>

definition Target_custom :: "target \<Rightarrow> json \<Rightarrow> (exn, target) result" where
  "Target_custom t custom =
     bindE (json_get custom ''hardwareIds'') (\<lambda>hwids.
     bindE (mapE (\<lambda>(_, v). bindE (asString v) HardwareIdentifier_ctor) (json_items hwids)) (\<lambda>hws.
     bindE (json_get custom ''version'') (\<lambda>v.
     bindE (asString v) (\<lambda>version.
     bindE (json_get custom ''ecuIdentifiers'') (\<lambda>ecus.
     bindE (foldE (\<lambda>m (k, v).
              bindE (bindE (asString k) EcuSerial_ctor) (\<lambda>serial.
              bindE (json_get v ''hardwareId'') (\<lambda>hw.
              bindE (bindE (asString hw) HardwareIdentifier_ctor) (\<lambda>hwid.
              Inr (smap_insert serial hwid m)))))
            [] (json_items ecus)) (\<lambda>ecu_map.
     bindE (isMember custom ''targetFormat'') (\<lambda>has_format.
     bindE (if has_format then bindE (json_get custom ''targetFormat'') asString else Inr '''') (\<lambda>fmt.
     Inr (t\<lparr>t_hwids := hws, t_custom_version := version, t_ecus := ecu_map, t_type := fmt\<rparr>)))))))))"

definition Target_hashes :: "json \<Rightarrow> (exn, hash list) result" where
  "Target_hashes hashes =
     bindE (mapE (\<lambda>(k, v). bindE (asString k) (\<lambda>t. bindE (asString v) (\<lambda>d. Inr (Hash_ctor t d))))
              (json_items hashes)) (\<lambda>hs.
     Inr (sort_hashes (filter HaveAlgorithm hs)))"

definition Target_ctor :: "string \<Rightarrow> json \<Rightarrow> (exn, target) result" where
  "Target_ctor filename content =
     bindE (isMember content ''custom'') (\<lambda>has_custom.
     bindE (if has_custom
            then bindE (json_get content ''custom'') (Target_custom (empty_target filename))
            else Inr (empty_target filename)) (\<lambda>t.
     bindE (json_get content ''length'') (\<lambda>l.
     bindE (asUInt64 l) (\<lambda>len.
     bindE (json_get content ''hashes'') (\<lambda>hashes.
     bindE (Target_hashes hashes) (\<lambda>hs.
     Inr (t\<lparr>t_length := len, t_hashes := hs\<rparr>)))))))"

definition Target_internal :: "string \<Rightarrow> hash list \<Rightarrow> nat \<Rightarrow> string \<Rightarrow> target" where
  "Target_internal filename hashes len correlation_id =
     (empty_target filename)\<lparr>t_hashes := sort_hashes hashes, t_length := len,
                              t_correlation_id := correlation_id\<rparr>"

text \<open>\<open>Target::Unknown\<close>, from the hexadecimal SHA-256 digest of the empty string.\<close>

definition Target_Unknown :: "(string \<Rightarrow> string) \<Rightarrow> target" where
  "Target_Unknown sha256_hex =
     (empty_target ''unknown'')\<lparr>t_hashes := [Hash_ctor ''sha256'' (to_lower (sha256_hex ''''))],
                                 t_valid := False\<rparr>"

definition Target_MatchWith :: "target \<Rightarrow> hash \<Rightarrow> bool" where
  "Target_MatchWith t h \<longleftrightarrow> h \<in> set (t_hashes t)"

definition Target_sha256Hash :: "target \<Rightarrow> string" where
  "Target_sha256Hash t =
     (case find (\<lambda>h. h_type h = kSha256) (t_hashes t) of
        None \<Rightarrow> '''' | Some h \<Rightarrow> to_lower (h_value h))"

definition Target_IsOstree :: "target \<Rightarrow> bool" where
  "Target_IsOstree t =
     (if t_type t = ''OSTREE'' then True
      else if t_type t = '''' \<and> t_length t = 0 then True
      else False)"

definition Target_IsForSecondary :: "target \<Rightarrow> string \<Rightarrow> bool" where
  "Target_IsForSecondary t serial \<longleftrightarrow> find (\<lambda>(s, _). s = serial) (t_ecus t) \<noteq> None"

text \<open>The two nested loops of \<open>Target::operator==\<close>; \<open>None\<close> is its early \<open>return false\<close>.\<close>

fun match_hash_inner :: "hash \<Rightarrow> bool \<Rightarrow> hash list \<Rightarrow> bool option" where
  "match_hash_inner h oneMatchingHash [] = Some oneMatchingHash"
| "match_hash_inner h oneMatchingHash (h2 # hs2) =
     (if h_type h = h_type h2 \<and> \<not> h = h2 then None
      else match_hash_inner h (if h = h2 then True else oneMatchingHash) hs2)"

fun match_hashes :: "bool \<Rightarrow> hash list \<Rightarrow> hash list \<Rightarrow> bool option" where
  "match_hashes oneMatchingHash [] hs2 = Some oneMatchingHash"
| "match_hashes oneMatchingHash (h # hs) hs2 =
     (case match_hash_inner h oneMatchingHash hs2 of
        None \<Rightarrow> None
      | Some one \<Rightarrow> match_hashes one hs hs2)"

definition Target_eq :: "target \<Rightarrow> target \<Rightarrow> bool" where
  "Target_eq t1 t2 =
     (if t_filename t1 \<noteq> t_filename t2 then False
      else if t_length t1 \<noteq> t_length t2 then False
      else (case match_hashes False (t_hashes t1) (t_hashes t2) of None \<Rightarrow> False | Some b \<Rightarrow> b))"

section \<open>Facts about targets\<close>

lemma match_hash_inner_Some:
  "match_hash_inner h b hs2 = Some b' \<longleftrightarrow>
     (\<forall>h2 \<in> set hs2. h_type h = h_type h2 \<longrightarrow> h = h2) \<and> b' = (b \<or> h \<in> set hs2)"
  by (induction h b hs2 rule: match_hash_inner.induct) auto

lemma match_hashes_Some:
  "match_hashes b hs hs2 = Some b' \<longleftrightarrow>
     (\<forall>h \<in> set hs. \<forall>h2 \<in> set hs2. h_type h = h_type h2 \<longrightarrow> h = h2) \<and>
     b' = (b \<or> (\<exists>h \<in> set hs. h \<in> set hs2))"
proof (induction b hs hs2 rule: match_hashes.induct)
  case (2 b h hs hs2)
  show ?case
  proof (cases "match_hash_inner h b hs2")
    case None
    then have "\<not> (\<forall>h2 \<in> set hs2. h_type h = h_type h2 \<longrightarrow> h = h2)"
      using match_hash_inner_Some [of h b hs2 "b \<or> h \<in> set hs2"] by simp
    with None show ?thesis by auto
  next
    case (Some one)
    then have h: "\<forall>h2 \<in> set hs2. h_type h = h_type h2 \<longrightarrow> h = h2" and one: "one = (b \<or> h \<in> set hs2)"
      unfolding match_hash_inner_Some by blast+
    have "match_hashes b (h # hs) hs2 = Some b' \<longleftrightarrow> match_hashes one hs hs2 = Some b'"
      by (simp add: Some)
    then show ?thesis
      unfolding 2 [OF Some] using h by (simp only: one list.set ball_simps bex_simps disj_assoc) simp
  qed
qed auto

text \<open>
  The specification of target equality stated in the source: name and length agree, hashes of the
  same type agree, and at least one pair of hashes agrees.
\<close>

definition targets_agree :: "target \<Rightarrow> target \<Rightarrow> bool" where
  "targets_agree t1 t2 \<longleftrightarrow>
     t_filename t1 = t_filename t2 \<and> t_length t1 = t_length t2 \<and>
     (\<forall>h \<in> set (t_hashes t1). \<forall>h2 \<in> set (t_hashes t2). h_type h = h_type h2 \<longrightarrow> h = h2) \<and>
     set (t_hashes t1) \<inter> set (t_hashes t2) \<noteq> {}"

lemma Target_eq_iff: "Target_eq t1 t2 \<longleftrightarrow> targets_agree t1 t2"
proof -
  have "(case match_hashes False hs hs2 of None \<Rightarrow> False | Some b \<Rightarrow> b)
      \<longleftrightarrow> match_hashes False hs hs2 = Some True" for hs hs2
    by (auto split: option.splits)
  then show ?thesis
    by (auto simp: Target_eq_def targets_agree_def match_hashes_Some)
qed

lemma targets_agree_sym: "targets_agree t1 t2 \<longleftrightarrow> targets_agree t2 t1"
  unfolding targets_agree_def by (metis inf_commute)

text \<open>What holds of every target read from metadata.\<close>

definition Target_wf :: "target \<Rightarrow> bool" where
  "Target_wf t \<longleftrightarrow>
     t_valid t \<and> (\<forall>h \<in> set (t_hashes t). Hash_wf h \<and> HaveAlgorithm h) \<and>
     sorted (map (\<lambda>h. hash_priority (h_type h)) (t_hashes t)) \<and>
     smap_wf (t_ecus t) \<and>
     (\<forall>(s, hw) \<in> set (t_ecus t). 1 \<le> length s \<and> length s \<le> 64 \<and> length hw \<le> 200) \<and>
     (\<forall>hw \<in> set (t_hwids t). length hw \<le> 200)"

lemma HardwareIdentifier_ctor_Inr [result_simps]:
  "HardwareIdentifier_ctor s = Inr h \<longleftrightarrow> h = s \<and> length s \<le> 200"
  by (auto simp: HardwareIdentifier_ctor_def)

lemma EcuSerial_ctor_Inr [result_simps]:
  "EcuSerial_ctor s = Inr e \<longleftrightarrow> e = s \<and> 1 \<le> length s \<and> length s \<le> 64"
  by (auto simp: EcuSerial_ctor_def Suc_le_eq)

lemma Target_hashes_wf:
  assumes "Target_hashes j = Inr hs"
  shows "\<forall>h \<in> set hs. Hash_wf h \<and> HaveAlgorithm h"
    and "sorted (map (\<lambda>h. hash_priority (h_type h)) hs)"
proof -
  from assms obtain gs where
    gs: "mapE (\<lambda>(k, v). bindE (asString k) (\<lambda>t. bindE (asString v) (\<lambda>d. Inr (Hash_ctor t d))))
           (json_items j) = Inr gs"
    and hs: "hs = sort_hashes (filter HaveAlgorithm gs)"
    by (auto simp: Target_hashes_def result_simps)
  have "\<forall>h \<in> set gs. Hash_wf h"
    using mapE_set [OF gs] by (fastforce simp: result_simps split: prod.splits)
  then show "\<forall>h \<in> set hs. Hash_wf h \<and> HaveAlgorithm h"
    by (simp add: hs sort_hashes_def)
  show "sorted (map (\<lambda>h. hash_priority (h_type h)) hs)"
    by (simp add: hs sort_hashes_def)
qed

lemma Target_custom_wf:
  assumes "Target_custom t custom = Inr t'" and "Target_wf t"
  shows "Target_wf t'"
proof -
  from assms(1) obtain hwids hws version ecus ecu_map fmt where
    hws: "mapE (\<lambda>(_, v). bindE (asString v) HardwareIdentifier_ctor) (json_items hwids) = Inr hws"
    and ecu_map: "foldE (\<lambda>m (k, v).
              bindE (bindE (asString k) EcuSerial_ctor) (\<lambda>serial.
              bindE (json_get v ''hardwareId'') (\<lambda>hw.
              bindE (bindE (asString hw) HardwareIdentifier_ctor) (\<lambda>hwid.
              Inr (smap_insert serial hwid m)))))
            [] (json_items ecus) = Inr ecu_map"
    and t': "t' = t\<lparr>t_hwids := hws, t_custom_version := version, t_ecus := ecu_map, t_type := fmt\<rparr>"
    unfolding Target_custom_def bindE_Inr_iff by blast
  have "\<forall>hw \<in> set hws. length hw \<le> 200"
    using mapE_set [OF hws] by (fastforce simp: result_simps)
  moreover let ?ok = "\<lambda>m. smap_wf m \<and> (\<forall>(s, hw) \<in> set m. 1 \<le> length s \<and> length s \<le> 64 \<and> length hw \<le> 200)"
  have "?ok ecu_map"
    by (rule foldE_invariant [OF ecu_map])
      (auto simp: result_simps dest!: set_smap_insert)
  ultimately show ?thesis using assms(2) by (simp add: t' Target_wf_def)
qed

lemma Target_ctor_wf:
  assumes "Target_ctor filename content = Inr t"
  shows "Target_wf t" and "t_filename t = filename"
proof -
  from assms obtain t0 len hashes hs where
    t0: "t0 = empty_target filename \<or> (\<exists>custom. Target_custom (empty_target filename) custom = Inr t0)"
    and hs: "Target_hashes hashes = Inr hs" and t: "t = t0\<lparr>t_length := len, t_hashes := hs\<rparr>"
    unfolding Target_ctor_def by (auto simp: bindE_Inr_iff split: if_splits) blast
  have "Target_wf (empty_target filename)" by (simp add: Target_wf_def empty_target_def)
  with t0 have wf: "Target_wf t0" by (auto intro: Target_custom_wf)
  with Target_hashes_wf [OF hs] show "Target_wf t" by (simp add: t Target_wf_def)
  have "t_filename t0 = filename"
    using t0 by (auto simp: Target_custom_def bindE_Inr_iff empty_target_def)
  then show "t_filename t = filename" by (simp add: t)
qed

end
