(* ===== verification/Tuf_Root.thy ===== *)
theory Tuf_Root
  imports Tuf_Types
begin

text \<open>
  Public keys (\<open>crypto/crypto.cc\<close>), the trusted root with its signature check (\<open>uptane/root.cc\<close>)
  and the metadata objects read under it (\<open>BaseMeta\<close>, \<open>Targets\<close>, \<open>TimestampMeta\<close>, \<open>Snapshot\<close> and
  \<open>MetaPack\<close> of \<open>uptane/tuf.cc\<close>).  The cryptographic primitives (libsodium, OpenSSL, and the
  decoding of their textual arguments), the JSON text reader and the canonical JSON writer are the
  fields of the parameter record \<open>crypto\<close>.
\<close>

section \<open>Public keys\<close>

datatype key_type = kED25519 | kRSA2048 | kRSA3072 | kRSA4096 | kUnknownKey

record crypto =
  ED25519Verify :: "string \<Rightarrow> string \<Rightarrow> string \<Rightarrow> (exn, bool) result"
  RSAPSSVerify :: "string \<Rightarrow> string \<Rightarrow> string \<Rightarrow> (exn, bool) result"
  IdentifyRSAKeyType :: "string \<Rightarrow> key_type"
  sha256digest_hex :: "string \<Rightarrow> string"
  sha512digest_hex :: "string \<Rightarrow> string"
  FastWriter_write :: "json \<Rightarrow> string"
  parseJSON :: "string \<Rightarrow> json"

record public_key =
  pk_value :: string
  pk_type :: key_type

definition unknown_key :: public_key where
  "unknown_key = \<lparr>pk_value = '''', pk_type = kUnknownKey\<rparr>"

definition IsRsaKeyType :: "key_type \<Rightarrow> bool" where
  "IsRsaKeyType t \<longleftrightarrow> t \<in> {kRSA2048, kRSA3072, kRSA4096}"

definition PublicKey_ctor :: "crypto \<Rightarrow> json \<Rightarrow> (exn, public_key) result" where
  "PublicKey_ctor c uptane_json =
     bindE (json_get uptane_json ''keytype'') (\<lambda>kt.
     if \<not> isString kt then Inr unknown_key
     else bindE (json_get uptane_json ''keyval'') (\<lambda>kv.
     if \<not> isObject kv then Inr unknown_key
     else bindE (json_get kv ''public'') (\<lambda>pub.
     if \<not> isString pub then Inr unknown_key
     else bindE (asString kt) (\<lambda>ktype.
     bindE (asString pub) (\<lambda>keyvalue.
     let keytype = to_lower ktype
     in Inr \<lparr>pk_value = keyvalue,
             pk_type = (if keytype = ''ed25519'' then kED25519
                        else if keytype = ''rsa'' then IdentifyRSAKeyType c keyvalue
                        else kUnknownKey)\<rparr>)))))"

definition PublicKey_VerifySignature ::
  "crypto \<Rightarrow> public_key \<Rightarrow> string \<Rightarrow> string \<Rightarrow> (exn, bool) result" where
  "PublicKey_VerifySignature c k signature message =
     (case pk_type k of
        kED25519 \<Rightarrow> ED25519Verify c (pk_value k) signature message
      | kRSA2048 \<Rightarrow> RSAPSSVerify c (pk_value k) signature message
      | kRSA3072 \<Rightarrow> RSAPSSVerify c (pk_value k) signature message
      | kRSA4096 \<Rightarrow> RSAPSSVerify c (pk_value k) signature message
      | kUnknownKey \<Rightarrow> Inr False)"

definition PublicKey_ToUptane :: "public_key \<Rightarrow> json" where
  "PublicKey_ToUptane k =
     JObject [(''keytype'', JString (if IsRsaKeyType (pk_type k) then ''RSA''
                                     else if pk_type k = kED25519 then ''ED25519'' else ''unknown'')),
              (''keyval'', JObject [(''public'', JString (pk_value k))])]"

section \<open>The root\<close>

record basemeta =
  m_version :: int
  m_expiry :: string
  m_original :: json

datatype policy = kRejectAll | kAcceptAll | kCheck

record root = basemeta +
  r_policy :: policy
  r_keys :: "(string \<times> public_key) list"
  r_keys_for_role :: "(role \<times> string) list"
  r_thresholds :: "role \<rightharpoonup> int"

definition kMinSignatures :: int where "kMinSignatures = 1"
definition kMaxSignatures :: int where "kMaxSignatures = 1000"

definition empty_root :: "policy \<Rightarrow> root" where
  "empty_root p =
     \<lparr>m_version = 0, m_expiry = '''', m_original = JNull,
      r_policy = p, r_keys = [], r_keys_for_role = [], r_thresholds = Map.empty\<rparr>"

text \<open>One iteration of the loop over \<open>signed.keys\<close>.\<close>

definition Root_add_key ::
  "crypto \<Rightarrow> repository_type \<Rightarrow> root \<Rightarrow> json \<times> json \<Rightarrow> (exn, root) result" where
  "Root_add_key c repo r = (\<lambda>(key, it).
     bindE (json_get it ''keytype'') (\<lambda>kt.
     bindE (asString kt) (\<lambda>ktype.
     let key_type = to_lower ktype
     in if key_type \<noteq> ''rsa'' \<and> key_type \<noteq> ''ed25519''
        then Inl (SecurityException (RepositoryType_toString repo) (''Unsupported key type: '' @ ktype))
        else bindE (asString key) (\<lambda>keyid.
             bindE (PublicKey_ctor c it) (\<lambda>k.
             Inr (r\<lparr>r_keys := smap_set keyid k (r_keys r)\<rparr>))))))"

text \<open>One iteration of the loop over \<open>signed.roles\<close>; an unknown role name is skipped.\<close>

definition Root_add_role :: "repository_type \<Rightarrow> root \<Rightarrow> json \<times> json \<Rightarrow> (exn, root) result" where
  "Root_add_role repo r = (\<lambda>(key, it).
     bindE (asString key) (\<lambda>role_name.
     let role = Role_ctor role_name
     in if role = kInvalidRole then Inr r
        else bindE (json_get it ''threshold'') (\<lambda>th.
             bindE (asInt64 th) (\<lambda>requiredThreshold.
             if requiredThreshold < kMinSignatures
             then Inl (IllegalThreshold (RepositoryType_toString repo)
                        (''The role '' @ role_name @ '' had an illegal signature threshold.''))
             else if kMaxSignatures < requiredThreshold
             then Inl (IllegalThreshold (RepositoryType_toString repo)
                        ''root.json contains a role that requires too many signatures'')
             else bindE (json_get it ''keyids'') (\<lambda>keyids.
                  bindE (mapE (\<lambda>(_, v). asString v) (json_items keyids)) (\<lambda>ids.
                  Inr (r\<lparr>r_thresholds := (r_thresholds r)(role \<mapsto> requiredThreshold),
                         r_keys_for_role := r_keys_for_role r @ map (Pair role) ids\<rparr>)))))))"

definition Root_ctor :: "crypto \<Rightarrow> repository_type \<Rightarrow> json \<Rightarrow> (exn, root) result" where
  "Root_ctor c repo json =
     bindE (if isObject json then isMember json ''signed'' else Inr False) (\<lambda>ok.
     if \<not> ok then Inl (InvalidMetadata '''' '''' ''invalid metadata json'')
     else bindE (json_get json ''signed'') (\<lambda>sobj.
     bindE (bindE (json_get sobj ''version'') asInt) (\<lambda>version.
     bindE (bindE (bindE (json_get sobj ''expires'') asString) TimeStamp_ctor) (\<lambda>expiry.
     bindE (isMember sobj ''keys'') (\<lambda>has_keys.
     bindE (if has_keys then isMember sobj ''roles'' else Inr False) (\<lambda>has_both.
     if \<not> has_both
     then Inl (InvalidMetadata (RepositoryType_toString repo) ''root'' ''missing keys/roles field'')
     else bindE (json_get sobj ''keys'') (\<lambda>keys.
     bindE (foldE (Root_add_key c repo)
              ((empty_root kCheck)\<lparr>m_version := version, m_expiry := expiry, m_original := json\<rparr>)
              (json_items keys)) (\<lambda>r.
     bindE (json_get sobj ''roles'') (\<lambda>roles.
     foldE (Root_add_role repo) r (json_items roles))))))))))"

section \<open>The signature check\<close>

text \<open>One iteration of the loop over \<open>signatures\<close>: the count of valid signatures and the used key ids.\<close>

definition Root_check_signature ::
  "crypto \<Rightarrow> root \<Rightarrow> repository_type \<Rightarrow> role \<Rightarrow> string \<Rightarrow>
   nat \<times> string list \<Rightarrow> json \<times> json \<Rightarrow> (exn, nat \<times> string list) result" where
  "Root_check_signature c r repo role canonical = (\<lambda>(valid_signatures, used_keyids) (_, sig).
     bindE (bindE (json_get sig ''keyid'') asString) (\<lambda>keyid.
     if keyid \<in> set used_keyids
     then Inl (NonUniqueSignatures (RepositoryType_toString repo) (Role_ToString role))
     else
       let used = keyid # used_keyids
       in bindE (bindE (json_get sig ''method'') asString) (\<lambda>method_str.
          let method = to_lower method_str
          in if method \<noteq> ''rsassa-pss'' \<and> method \<noteq> ''rsassa-pss-sha256'' \<and> method \<noteq> ''ed25519''
             then Inl (SecurityException (RepositoryType_toString repo)
                        (''Unsupported sign method: '' @ method_str))
             else case map_of (r_keys r) keyid of
                    None \<Rightarrow> Inr (valid_signatures, used)
                  | Some key \<Rightarrow>
                      if (role, keyid) \<notin> set (r_keys_for_role r) then Inr (valid_signatures, used)
                      else bindE (bindE (json_get sig ''sig'') asString) (\<lambda>signature.
                           bindE (PublicKey_VerifySignature c key signature canonical) (\<lambda>good.
                           Inr (if good then valid_signatures + 1 else valid_signatures, used))))))"

text \<open>
  Reading \<open>thresholds_for_role_[role]\<close> of a role that has no entry gives 0.  (It also enters 0 in the
  map, which no later read can distinguish from a missing entry.)
\<close>

definition threshold_for_role :: "root \<Rightarrow> role \<Rightarrow> int" where
  "threshold_for_role r role = (case r_thresholds r role of None \<Rightarrow> 0 | Some t \<Rightarrow> t)"

definition UnpackSignedObject ::
  "crypto \<Rightarrow> root \<Rightarrow> repository_type \<Rightarrow> json \<Rightarrow> (exn, unit) result" where
  "UnpackSignedObject c r repo signed_object =
     (let repository = RepositoryType_toString repo
      in bindE (json_get signed_object ''signed'') (\<lambda>sobj.
         bindE (bindE (json_get sobj ''_type'') asString) (\<lambda>type.
         let role = Role_ctor type
         in case r_policy r of
              kAcceptAll \<Rightarrow> Inr ()
            | kRejectAll \<Rightarrow> Inl (SecurityException repository ''Root policy is Policy::kRejectAll'')
            | kCheck \<Rightarrow>
                let canonical = FastWriter_write c sobj
                in bindE (json_get signed_object ''signatures'') (\<lambda>signatures.
                   bindE (foldE (Root_check_signature c r repo role canonical) (0, [])
                            (json_items signatures)) (\<lambda>(valid_signatures, _).
                   let threshold = threshold_for_role r role
                   in if threshold < kMinSignatures \<or> kMaxSignatures < threshold
                      then Inl (IllegalThreshold repository ''Invalid signature threshold'')
                      else if json_size signatures = 1 \<and> valid_signatures = 0
                      then Inl (BadKeyId repository)
                      else if int valid_signatures < threshold
                      then Inl (UnmetThreshold repository (Role_ToString role))
                      else bindE (bindE (json_get sobj ''_type'') asString) (\<lambda>type'.
                           if role \<noteq> Role_ctor type'
                           then Inl (SecurityException repository ''Object was signed for a different role'')
                           else Inr ()))))))"

text \<open>The constructor of a root that a previous root has to accept.\<close>

definition Root_ctor_verified ::
  "crypto \<Rightarrow> repository_type \<Rightarrow> json \<Rightarrow> root \<Rightarrow> (exn, root) result" where
  "Root_ctor_verified c repo json old =
     bindE (Root_ctor c repo json) (\<lambda>r.
     bindE (UnpackSignedObject c old repo json) (\<lambda>_.
     bindE (UnpackSignedObject c r repo json) (\<lambda>_.
     Inr r)))"

section \<open>Metadata objects\<close>

definition catch_timestamp :: "(exn, 'a) result \<Rightarrow> (exn, 'a) result" where
  "catch_timestamp m =
     (case m of
        Inl InvalidTimeStamp \<Rightarrow> Inl (InvalidMetadata '''' '''' ''Invalid timestamp'')
      | _ \<Rightarrow> m)"

definition has_signed :: "json \<Rightarrow> (exn, bool) result" where
  "has_signed json = (if isObject json then isMember json ''signed'' else Inr False)"

definition BaseMeta_init :: "json \<Rightarrow> (exn, basemeta) result" where
  "BaseMeta_init json =
     bindE (has_signed json) (\<lambda>ok.
     if \<not> ok then Inl (InvalidMetadata '''' '''' ''invalid metadata json'')
     else bindE (bindE (json_path json [''signed'', ''version'']) asInt) (\<lambda>version.
     bindE (catch_timestamp
              (bindE (bindE (json_path json [''signed'', ''expires'']) asString) TimeStamp_ctor)) (\<lambda>expiry.
     Inr \<lparr>m_version = version, m_expiry = expiry, m_original = json\<rparr>)))"

definition BaseMeta_ctor_verified ::
  "crypto \<Rightarrow> repository_type \<Rightarrow> json \<Rightarrow> root \<Rightarrow> (exn, basemeta) result" where
  "BaseMeta_ctor_verified c repo json r =
     bindE (has_signed json) (\<lambda>ok.
     if \<not> ok then Inl (InvalidMetadata '''' '''' ''invalid metadata json'')
     else bindE (UnpackSignedObject c r repo json) (\<lambda>_. BaseMeta_init json))"

definition empty_basemeta :: basemeta where
  "empty_basemeta = \<lparr>m_version = -1, m_expiry = '''', m_original = JNull\<rparr>"

definition isExpired :: "('a basemeta_scheme) \<Rightarrow> string \<Rightarrow> bool" where
  "isExpired m now = TimeStamp_IsExpiredAt (m_expiry m) now"

record targets = basemeta +
  tgt_targets :: "target list"
  tgt_correlation_id :: string

record timestamp_meta = basemeta +
  snapshot_hashes :: "hash list"
  snapshot_size :: int
  snapshot_version :: int

record snapshot_meta = basemeta +
  targets_hashes :: "hash list"
  targets_size :: int
  targets_version :: int

definition empty_targets :: targets where
  "empty_targets = basemeta.extend empty_basemeta \<lparr>tgt_targets = [], tgt_correlation_id = ''''\<rparr>"

definition empty_timestamp :: timestamp_meta where
  "empty_timestamp =
     basemeta.extend empty_basemeta \<lparr>snapshot_hashes = [], snapshot_size = 0, snapshot_version = -1\<rparr>"

definition empty_snapshot :: snapshot_meta where
  "empty_snapshot =
     basemeta.extend empty_basemeta \<lparr>targets_hashes = [], targets_size = 0, targets_version = -1\<rparr>"

definition Targets_init :: "basemeta \<Rightarrow> json \<Rightarrow> (exn, targets) result" where
  "Targets_init m json =
     bindE (if isObject json
            then bindE (json_path json [''signed'', ''_type'']) (\<lambda>t. Inr (t = JString ''Targets''))
            else Inr False) (\<lambda>ok.
     if \<not> ok then Inl (InvalidMetadata '''' ''targets'' ''invalid targets.json'')
     else bindE (json_path json [''signed'', ''targets'']) (\<lambda>target_list.
     bindE (mapE (\<lambda>(k, v). bindE (asString k) (\<lambda>name. Target_ctor name v)) (json_items target_list)) (\<lambda>ts.
     bindE (json_path json [''signed'', ''custom'']) (\<lambda>custom.
     bindE (if isObject custom then bindE (json_get custom ''correlationId'') asString else Inr '''') (\<lambda>cid.
     Inr (basemeta.extend m \<lparr>tgt_targets = ts, tgt_correlation_id = cid\<rparr>))))))"

definition read_hashes :: "json \<Rightarrow> (exn, hash list) result" where
  "read_hashes hashes_list =
     mapE (\<lambda>(k, v). bindE (asString k) (\<lambda>t. bindE (asString v) (\<lambda>d. Inr (Hash_ctor t d))))
       (json_items hashes_list)"

definition TimestampMeta_init :: "basemeta \<Rightarrow> json \<Rightarrow> (exn, timestamp_meta) result" where
  "TimestampMeta_init m json =
     bindE (json_path json [''signed'', ''meta'', ''snapshot.json'', ''hashes'']) (\<lambda>hashes_list.
     bindE (json_path json [''signed'', ''meta'', ''snapshot.json'', ''length'']) (\<lambda>meta_size.
     bindE (json_path json [''signed'', ''meta'', ''snapshot.json'', ''version'']) (\<lambda>meta_version.
     bindE (json_path json [''signed'', ''_type'']) (\<lambda>t.
     if \<not> isObject json \<or> t \<noteq> JString ''Timestamp'' \<or> \<not> isObject hashes_list \<or>
        \<not> isIntegral meta_size \<or> \<not> isIntegral meta_version
     then Inl (InvalidMetadata '''' ''timestamp'' ''invalid timestamp.json'')
     else bindE (read_hashes hashes_list) (\<lambda>hs.
          bindE (asInt meta_size) (\<lambda>size.
          bindE (asInt meta_version) (\<lambda>version.
          Inr (basemeta.extend m
                \<lparr>snapshot_hashes = hs, snapshot_size = size, snapshot_version = version\<rparr>))))))))"

definition Snapshot_init :: "basemeta \<Rightarrow> json \<Rightarrow> (exn, snapshot_meta) result" where
  "Snapshot_init m json =
     bindE (json_path json [''signed'', ''meta'', ''targets.json'', ''hashes'']) (\<lambda>hashes_list.
     bindE (json_path json [''signed'', ''meta'', ''targets.json'', ''length'']) (\<lambda>meta_size.
     bindE (json_path json [''signed'', ''meta'', ''targets.json'', ''version'']) (\<lambda>meta_version.
     bindE (json_path json [''signed'', ''_type'']) (\<lambda>t.
     if \<not> isObject json \<or> t \<noteq> JString ''Snapshot'' \<or> \<not> isIntegral meta_version
     then Inl (InvalidMetadata '''' ''snapshot'' ''invalid snapshot.json'')
     else bindE (if isObject hashes_list then read_hashes hashes_list else Inr []) (\<lambda>hs.
          bindE (if isIntegral meta_size then asInt meta_size else Inr (-1)) (\<lambda>size.
          bindE (asInt meta_version) (\<lambda>version.
          Inr (basemeta.extend m
                \<lparr>targets_hashes = hs, targets_size = size, targets_version = version\<rparr>))))))))"

text \<open>The constructors from a JSON value alone, and those that check it against a root.\<close>

definition Targets_ctor :: "json \<Rightarrow> (exn, targets) result" where
  "Targets_ctor json = bindE (BaseMeta_init json) (\<lambda>m. Targets_init m json)"

definition Targets_ctor_verified ::
  "crypto \<Rightarrow> repository_type \<Rightarrow> json \<Rightarrow> root \<Rightarrow> (exn, targets) result" where
  "Targets_ctor_verified c repo json r =
     bindE (BaseMeta_ctor_verified c repo json r) (\<lambda>m. Targets_init m json)"

definition TimestampMeta_ctor :: "json \<Rightarrow> (exn, timestamp_meta) result" where
  "TimestampMeta_ctor json = bindE (BaseMeta_init json) (\<lambda>m. TimestampMeta_init m json)"

definition TimestampMeta_ctor_verified ::
  "crypto \<Rightarrow> repository_type \<Rightarrow> json \<Rightarrow> root \<Rightarrow> (exn, timestamp_meta) result" where
  "TimestampMeta_ctor_verified c repo json r =
     bindE (BaseMeta_ctor_verified c repo json r) (\<lambda>m. TimestampMeta_init m json)"

definition Snapshot_ctor :: "json \<Rightarrow> (exn, snapshot_meta) result" where
  "Snapshot_ctor json = bindE (BaseMeta_init json) (\<lambda>m. Snapshot_init m json)"

definition Snapshot_ctor_verified ::
  "crypto \<Rightarrow> repository_type \<Rightarrow> json \<Rightarrow> root \<Rightarrow> (exn, snapshot_meta) result" where
  "Snapshot_ctor_verified c repo json r =
     bindE (BaseMeta_ctor_verified c repo json r) (\<lambda>m. Snapshot_init m json)"

text \<open>\<open>Targets::operator==\<close>, with \<open>Target::operator==\<close> on the elements.\<close>

definition Targets_eq :: "targets \<Rightarrow> targets \<Rightarrow> bool" where
  "Targets_eq a b \<longleftrightarrow>
     m_version a = m_version b \<and> m_expiry a = m_expiry b \<and>
     list_all2 Target_eq (tgt_targets a) (tgt_targets b)"

text \<open>
  \<open>MetaPack::isConsistent\<close>: the new root is checked against itself and the targets against a copy of
  the pack's root.  Exceptions that are no \<open>std::logic_error\<close> escape.
\<close>

fun is_logic_error :: "exn \<Rightarrow> bool" where
  "is_logic_error (RuntimeError _) = False"
| "is_logic_error (CryptoFailure _) = False"
| "is_logic_error AssertFail = False"
| "is_logic_error _ = True"

definition MetaPack_isConsistent :: "crypto \<Rightarrow> root \<Rightarrow> targets \<Rightarrow> (exn, bool) result" where
  "MetaPack_isConsistent c director_root director_targets =
     (case (if m_original director_root \<noteq> JNull
            then bindE (Root_ctor c kDirector (m_original director_root)) (\<lambda>new_root.
                 bindE (UnpackSignedObject c new_root kDirector (m_original director_root)) (\<lambda>_.
                 bindE (UnpackSignedObject c new_root kDirector (m_original director_root)) (\<lambda>_.
                 if m_original director_targets \<noteq> JNull
                 then bindE (Targets_ctor_verified c kDirector (m_original director_targets)
                               director_root) (\<lambda>_. Inr ())
                 else Inr ())))
            else Inr ()) of
        Inr _ \<Rightarrow> Inr True
      | Inl e \<Rightarrow> (if is_logic_error e then Inr False else Inl e))"

definition extractVersionUntrusted :: "crypto \<Rightarrow> string \<Rightarrow> (exn, int) result" where
  "extractVersionUntrusted c meta =
     bindE (json_path (parseJSON c meta) [''signed'', ''version'']) (\<lambda>version_json.
     if \<not> isIntegral version_json then Inr (-1) else asInt version_json)"

section \<open>Facts about the signature check\<close>

text \<open>
  An entry of the signature list is a valid signature by key \<open>k\<close> for a role when the root knows
  the key, authorises it for the role and the signature verifies.
\<close>

definition signed_by :: "crypto \<Rightarrow> root \<Rightarrow> role \<Rightarrow> string \<Rightarrow> json \<Rightarrow> string \<Rightarrow> bool" where
  "signed_by c r role canonical sig k \<longleftrightarrow>
     bindE (json_get sig ''keyid'') asString = Inr k \<and>
     (role, k) \<in> set (r_keys_for_role r) \<and>
     (case map_of (r_keys r) k of
        None \<Rightarrow> False
      | Some key \<Rightarrow>
          bindE (bindE (json_get sig ''sig'') asString)
            (\<lambda>s. PublicKey_VerifySignature c key s canonical) = Inr True)"

lemma Root_check_signature_Inr:
  assumes "Root_check_signature c r repo role canonical (v, used) (i, sig) = Inr (v', used')"
  shows "\<exists>k. k \<notin> set used \<and> used' = k # used \<and>
           v' = (if signed_by c r role canonical sig k then v + 1 else v) \<and>
           bindE (json_get sig ''keyid'') asString = Inr k"
proof -
  from assms obtain k where k: "bindE (json_get sig ''keyid'') asString = Inr k"
    unfolding Root_check_signature_def by (auto simp only: bindE_Inr_iff prod.case)
  from assms obtain m where m: "bindE (json_get sig ''method'') asString = Inr m" and nk: "k \<notin> set used"
    unfolding Root_check_signature_def
    by (auto simp only: k bindE_simps prod.case Let_def bindE_Inr_iff split: if_splits)
  show ?thesis
  proof (cases "map_of (r_keys r) k")
    case None
    with assms nk show ?thesis
      unfolding Root_check_signature_def signed_by_def
      by (auto simp: k m Let_def split: if_splits)
  next
    case (Some key)
    show ?thesis
    proof (cases "(role, k) \<in> set (r_keys_for_role r)")
      case False
      with assms nk Some show ?thesis
        unfolding Root_check_signature_def signed_by_def
        by (auto simp: k m Let_def split: if_splits)
    next
      case True
      have "Root_check_signature c r repo role canonical (v, used) (i, sig) =
          bindE (bindE (json_get sig ''sig'') asString) (\<lambda>signature.
          bindE (PublicKey_VerifySignature c key signature canonical) (\<lambda>good.
          Inr (if good then v + 1 else v, k # used)))"
        using assms nk by (simp add: Root_check_signature_def k m Let_def Some True split: if_splits)
      with assms obtain s b where "bindE (json_get sig ''sig'') asString = Inr s"
        "PublicKey_VerifySignature c key s canonical = Inr b"
        "v' = (if b then v + 1 else v)" "used' = k # used"
        by (cases "bindE (json_get sig ''sig'') asString") (auto simp: bindE_Inr_iff)
      then show ?thesis
        using nk by (simp add: signed_by_def k Some True)
    qed
  qed
qed

text \<open>The number of counted signatures is the number of distinct keys that signed.\<close>

definition signers :: "crypto \<Rightarrow> root \<Rightarrow> role \<Rightarrow> string \<Rightarrow> json list \<Rightarrow> string set" where
  "signers c r role canonical sigs = {k. \<exists>sig \<in> set sigs. signed_by c r role canonical sig k}"

lemma signed_by_key_known: "signed_by c r role canonical sig k \<Longrightarrow> map_of (r_keys r) k \<noteq> None"
  by (cases "map_of (r_keys r) k") (simp_all add: signed_by_def)

lemma signers_subset: "signers c r role canonical sigs \<subseteq> dom (map_of (r_keys r))"
proof
  fix k
  assume "k \<in> signers c r role canonical sigs"
  then obtain sig where "signed_by c r role canonical sig k" unfolding signers_def by blast
  from signed_by_key_known [OF this] show "k \<in> dom (map_of (r_keys r))" by (simp add: domIff)
qed

lemma finite_signers [simp]: "finite (signers c r role canonical sigs)"
  by (rule finite_subset [OF signers_subset]) (simp add: finite_dom_map_of)

lemma check_signatures_count:
  assumes "foldE (Root_check_signature c r repo role canonical) (v, used) items = Inr (v', used')"
  shows "v' = v + card (signers c r role canonical (map snd items)) \<and>
     signers c r role canonical (map snd items) \<inter> set used = {}"
  using assms
proof (induction items arbitrary: v used)
  case Nil
  then show ?case by (simp add: signers_def)
next
  case (Cons item items)
  obtain i sig where item: "item = (i, sig)" by (cases item)
  from Cons.prems obtain v1 used1 where
    step: "Root_check_signature c r repo role canonical (v, used) (i, sig) = Inr (v1, used1)"
    and rest: "foldE (Root_check_signature c r repo role canonical) (v1, used1) items = Inr (v', used')"
    unfolding item foldE.simps bindE_Inr_iff by (metis surj_pair)
  from Root_check_signature_Inr [OF step] obtain k where
    k: "k \<notin> set used" "used1 = k # used" "v1 = (if signed_by c r role canonical sig k then v + 1 else v)"
      "bindE (json_get sig ''keyid'') asString = Inr k"
    by blast
  let ?S = "signers c r role canonical (map snd items)"
  from Cons.IH [OF rest] have IH: "v' = v1 + card ?S" "?S \<inter> set (k # used) = {}"
    unfolding k(2) by blast+
  have only_k: "signed_by c r role canonical sig k' \<Longrightarrow> k' = k" for k'
    unfolding signed_by_def k(4) by simp
  have one: "{k'. signed_by c r role canonical sig k'} = (if signed_by c r role canonical sig k then {k} else {})"
    by (rule set_eqI) (metis only_k empty_iff mem_Collect_eq singleton_iff)
  have S: "signers c r role canonical (map snd (item # items))
      = (if signed_by c r role canonical sig k then {k} else {}) \<union> ?S"
    unfolding one [symmetric] by (auto simp: signers_def item)
  show ?case
    unfolding S IH(1) k(3) using IH(2) k(1) by simp
qed

text \<open>
  An entry that the loop reads without throwing: it has a key id and a supported method, and
  the verification of an authorised known key returns.
\<close>

definition signature_entry_ok :: "crypto \<Rightarrow> root \<Rightarrow> role \<Rightarrow> string \<Rightarrow> json \<Rightarrow> string \<Rightarrow> bool" where
  "signature_entry_ok c r role canonical sig k \<longleftrightarrow>
     bindE (json_get sig ''keyid'') asString = Inr k \<and>
     (case bindE (json_get sig ''method'') asString of
        Inl _ \<Rightarrow> False
      | Inr m \<Rightarrow> to_lower m \<in> {''rsassa-pss'', ''rsassa-pss-sha256'', ''ed25519''}) \<and>
     (case map_of (r_keys r) k of
        None \<Rightarrow> True
      | Some key \<Rightarrow>
          (role, k) \<in> set (r_keys_for_role r) \<longrightarrow>
          (case bindE (bindE (json_get sig ''sig'') asString)
                  (\<lambda>s. PublicKey_VerifySignature c key s canonical) of
             Inl _ \<Rightarrow> False | Inr _ \<Rightarrow> True))"

lemma Root_check_signature_ok:
  assumes "signature_entry_ok c r role canonical sig k"
  shows "Root_check_signature c r repo role canonical (v, used) (i, sig) =
    (if k \<in> set used
     then Inl (NonUniqueSignatures (RepositoryType_toString repo) (Role_ToString role))
     else Inr (if signed_by c r role canonical sig k then v + 1 else v, k # used))"
proof -
  from assms obtain m where k: "bindE (json_get sig ''keyid'') asString = Inr k"
    and m: "bindE (json_get sig ''method'') asString = Inr m"
    and sup: "\<not> (to_lower m \<noteq> ''rsassa-pss'' \<and> to_lower m \<noteq> ''rsassa-pss-sha256'' \<and> to_lower m \<noteq> ''ed25519'')"
    by (auto simp: signature_entry_ok_def split: sum.splits)
  show ?thesis
  proof (cases "map_of (r_keys r) k")
    case None
    then show ?thesis
      using sup by (auto simp: Root_check_signature_def signed_by_def k m Let_def)
  next
    case (Some key)
    show ?thesis
    proof (cases "(role, k) \<in> set (r_keys_for_role r)")
      case False
      then show ?thesis
        using sup by (auto simp: Root_check_signature_def signed_by_def k m Let_def Some)
    next
      case True
      from assms Some True obtain s b where "bindE (json_get sig ''sig'') asString = Inr s"
        "PublicKey_VerifySignature c key s canonical = Inr b"
        by (cases "bindE (json_get sig ''sig'') asString")
          (auto simp: signature_entry_ok_def split: sum.splits)
      then show ?thesis
        using sup by (auto simp: Root_check_signature_def signed_by_def k m Let_def Some True)
    qed
  qed
qed

lemma signature_entry_ok_if_Inr:
  assumes "Root_check_signature c r repo role canonical (v, used) (i, sig) = Inr st"
  shows "\<exists>k. signature_entry_ok c r role canonical sig k"
proof -
  from assms obtain k where k: "bindE (json_get sig ''keyid'') asString = Inr k"
    unfolding Root_check_signature_def by (auto simp only: bindE_Inr_iff prod.case)
  from assms obtain m where m: "bindE (json_get sig ''method'') asString = Inr m" and nk: "k \<notin> set used"
    unfolding Root_check_signature_def
    by (auto simp only: k bindE_simps prod.case Let_def bindE_Inr_iff split: if_splits)
  have sup: "to_lower m \<in> {''rsassa-pss'', ''rsassa-pss-sha256'', ''ed25519''}"
    using assms nk by (simp add: Root_check_signature_def k m Let_def split: if_splits)
  have "signature_entry_ok c r role canonical sig k"
  proof (cases "map_of (r_keys r) k")
    case None
    with sup show ?thesis by (simp add: signature_entry_ok_def k m)
  next
    case (Some key)
    show ?thesis
    proof (cases "(role, k) \<in> set (r_keys_for_role r)")
      case True
      from assms nk have "bindE (bindE (json_get sig ''sig'') asString) (\<lambda>signature.
          bindE (PublicKey_VerifySignature c key signature canonical) (\<lambda>good.
          Inr (if good then v + 1 else v, k # used))) = Inr st"
        by (simp add: Root_check_signature_def k m Let_def Some True split: if_splits)
      then obtain s b where "bindE (json_get sig ''sig'') asString = Inr s"
        "PublicKey_VerifySignature c key s canonical = Inr b"
        by (cases "bindE (json_get sig ''sig'') asString") (auto simp: bindE_Inr_iff)
      with sup show ?thesis by (simp add: signature_entry_ok_def k m Some)
    qed (use sup in \<open>simp add: signature_entry_ok_def k m Some\<close>)
  qed
  then show ?thesis ..
qed

text \<open>The loop succeeds exactly when every entry is readable and no key id occurs twice.\<close>

lemma check_signatures_Inr:
  assumes "list_all2 (signature_entry_ok c r role canonical) (map snd items) ids"
    and "distinct ids" and "set ids \<inter> set used = {}"
  shows "foldE (Root_check_signature c r repo role canonical) (v, used) items =
    Inr (v + card (signers c r role canonical (map snd items)), rev ids @ used)"
proof -
  have "\<exists>v'. foldE (Root_check_signature c r repo role canonical) (v, used) items = Inr (v', rev ids @ used)"
    using assms
  proof (induction items arbitrary: ids v used)
    case (Cons item items)
    obtain i sig where item: "item = (i, sig)" by (cases item)
    from Cons.prems(1) obtain k ks where ids: "ids = k # ks"
      and ok: "signature_entry_ok c r role canonical sig k"
      and oks: "list_all2 (signature_entry_ok c r role canonical) (map snd items) ks"
      by (auto simp: item list_all2_Cons1)
    have "k \<notin> set used" "distinct ks" "set ks \<inter> set (k # used) = {}"
      using Cons.prems(2,3) by (auto simp: ids)
    then show ?case
      using Cons.IH [OF oks, of "k # used"] Root_check_signature_ok [OF ok]
      by (simp add: item ids)
  qed simp
  then show ?thesis using check_signatures_count by blast
qed

lemma check_signatures_InrD:
  assumes "foldE (Root_check_signature c r repo role canonical) (v, used) items = Inr st"
  shows "\<exists>ids. list_all2 (signature_entry_ok c r role canonical) (map snd items) ids \<and>
           distinct ids \<and> set ids \<inter> set used = {}"
  using assms
proof (induction items arbitrary: v used)
  case (Cons item items)
  obtain i sig where item: "item = (i, sig)" by (cases item)
  from Cons.prems obtain v1 used1 where
    step: "Root_check_signature c r repo role canonical (v, used) (i, sig) = Inr (v1, used1)"
    and rest: "foldE (Root_check_signature c r repo role canonical) (v1, used1) items = Inr st"
    unfolding item foldE.simps bindE_Inr_iff by (metis surj_pair)
  from signature_entry_ok_if_Inr [OF step] obtain k where
    ok: "signature_entry_ok c r role canonical sig k" ..
  from Root_check_signature_ok [OF ok] step have nk: "k \<notin> set used" "used1 = k # used"
    by (auto split: if_splits)
  from Cons.IH [OF rest] obtain ids where
    ids: "list_all2 (signature_entry_ok c r role canonical) (map snd items) ids"
      "distinct ids" "set ids \<inter> set (k # used) = {}"
    unfolding nk by blast
  with ok nk(1) have "list_all2 (signature_entry_ok c r role canonical) (map snd (item # items)) (k # ids)"
    "distinct (k # ids)" "set (k # ids) \<inter> set used = {}"
    by (auto simp: item)
  then show ?case by blast
qed simp

text \<open>
  The specification of an accepted object: it names a role whose threshold is legal, and at least
  that many distinct keys that the root authorises for the role have signed its canonical form.
\<close>

definition threshold_met :: "crypto \<Rightarrow> root \<Rightarrow> json \<Rightarrow> role \<Rightarrow> bool" where
  "threshold_met c r obj role \<longleftrightarrow>
     (\<exists>sobj t sigs.
        json_get obj ''signed'' = Inr sobj \<and> bindE (json_get sobj ''_type'') asString = Inr t \<and>
        role = Role_ctor t \<and> json_get obj ''signatures'' = Inr sigs \<and>
        1 \<le> threshold_for_role r role \<and> threshold_for_role r role \<le> 1000 \<and>
        threshold_for_role r role \<le>
          int (card (signers c r role (FastWriter_write c sobj) (map snd (json_items sigs)))))"

definition signatures_readable :: "crypto \<Rightarrow> root \<Rightarrow> json \<Rightarrow> role \<Rightarrow> bool" where
  "signatures_readable c r obj role \<longleftrightarrow>
     (\<exists>sobj sigs ids.
        json_get obj ''signed'' = Inr sobj \<and> json_get obj ''signatures'' = Inr sigs \<and>
        list_all2 (signature_entry_ok c r role (FastWriter_write c sobj)) (map snd (json_items sigs)) ids \<and>
        distinct ids)"

lemma UnpackSignedObject_Inr_iff:
  assumes "r_policy r = kCheck"
  shows "UnpackSignedObject c r repo obj = Inr () \<longleftrightarrow>
    (\<exists>role. threshold_met c r obj role \<and> signatures_readable c r obj role)"
proof (cases "json_get obj ''signed''")
  case (Inr sobj)
  show ?thesis
  proof (cases "bindE (json_get sobj ''_type'') asString")
    case t: (Inr t)
    let ?role = "Role_ctor t" and ?can = "FastWriter_write c sobj"
    show ?thesis
    proof (cases "json_get obj ''signatures''")
      case sigs: (Inr sigs)
      let ?S = "signers c r ?role ?can (map snd (json_items sigs))"
      show ?thesis
      proof (cases "foldE (Root_check_signature c r repo ?role ?can) (0, []) (json_items sigs)")
        case (Inl e)
        have "\<not> signatures_readable c r obj ?role"
          using Inl check_signatures_Inr [of c r ?role ?can "json_items sigs" _ "[]"]
          by (auto simp: signatures_readable_def Inr sigs)
        then show ?thesis
          using assms by (auto simp: UnpackSignedObject_def threshold_met_def Inr t sigs Inl Let_def)
      next
        case fold: (Inr st)
        then obtain used where
          st: "foldE (Root_check_signature c r repo ?role ?can) (0, []) (json_items sigs) = Inr (card ?S, used)"
          using check_signatures_count [of c r repo ?role ?can 0 "[]" "json_items sigs"]
          by (metis add_0 surj_pair)
        have readable: "signatures_readable c r obj ?role"
          using check_signatures_InrD [OF fold] by (auto simp: signatures_readable_def Inr sigs)
        have "UnpackSignedObject c r repo obj = Inr () \<longleftrightarrow> threshold_met c r obj ?role"
          using assms
          by (auto simp: UnpackSignedObject_def threshold_met_def Inr t sigs st Let_def
              kMinSignatures_def kMaxSignatures_def)
        with readable show ?thesis
          by (auto simp: threshold_met_def Inr t)
      qed
    qed (use assms in \<open>auto simp: UnpackSignedObject_def threshold_met_def Inr t Let_def\<close>)
  qed (use assms in \<open>auto simp: UnpackSignedObject_def threshold_met_def Inr Let_def\<close>)
qed (use assms in \<open>auto simp: UnpackSignedObject_def threshold_met_def Let_def\<close>)

lemma UnpackSignedObject_duplicate:
  assumes "r_policy r = kCheck"
    and "json_get obj ''signed'' = Inr sobj" and "bindE (json_get sobj ''_type'') asString = Inr t"
    and "json_get obj ''signatures'' = Inr sigs"
    and items: "map snd (json_items sigs) = pre @ sig # post"
    and pre: "list_all2 (signature_entry_ok c r (Role_ctor t) (FastWriter_write c sobj)) pre ids" "distinct ids"
    and dup: "bindE (json_get sig ''keyid'') asString = Inr k" "k \<in> set ids"
  shows "UnpackSignedObject c r repo obj =
    Inl (NonUniqueSignatures (RepositoryType_toString repo) (Role_ToString (Role_ctor t)))"
proof -
  let ?step = "Root_check_signature c r repo (Role_ctor t) (FastWriter_write c sobj)"
  from items obtain ipre i ipost where
    split: "json_items sigs = ipre @ (i, sig) # ipost" "map snd ipre = pre"
    by (auto simp: map_eq_append_conv map_eq_Cons_conv)
  have "foldE ?step (0, []) ipre =
      Inr (card (signers c r (Role_ctor t) (FastWriter_write c sobj) pre), rev ids)"
    using check_signatures_Inr [of c r "Role_ctor t" _ ipre ids "[]" repo 0] pre by (simp add: split)
  moreover have "?step (n, rev ids) (i, sig) =
      Inl (NonUniqueSignatures (RepositoryType_toString repo) (Role_ToString (Role_ctor t)))" for n
    using dup by (simp add: Root_check_signature_def)
  ultimately show ?thesis
    using assms(1-4) by (simp add: UnpackSignedObject_def split foldE_append Let_def)
qed

section \<open>Facts about the constructors\<close>

definition Root_wf :: "root \<Rightarrow> bool" where
  "Root_wf r \<longleftrightarrow>
     r_policy r = kCheck \<and> smap_wf (r_keys r) \<and>
     r_thresholds r kInvalidRole = None \<and>
     (\<forall>role t. r_thresholds r role = Some t \<longrightarrow> 1 \<le> t \<and> t \<le> 1000)"

lemma Root_add_key_wf: "Root_wf r \<Longrightarrow> Root_add_key c repo r kv = Inr r' \<Longrightarrow> Root_wf r'"
  by (cases kv) (auto simp: Root_add_key_def Root_wf_def result_simps Let_def split: if_splits)

lemma Root_add_role_wf: "Root_wf r \<Longrightarrow> Root_add_role repo r kv = Inr r' \<Longrightarrow> Root_wf r'"
  by (cases kv)
    (auto simp: Root_add_role_def Root_wf_def result_simps Let_def kMinSignatures_def
      kMaxSignatures_def split: if_splits)

lemma Root_add_frame:
  "Root_add_key c repo r kv = Inr r' \<Longrightarrow> m_version r' = m_version r \<and> m_expiry r' = m_expiry r \<and> m_original r' = m_original r"
  "Root_add_role repo r kv = Inr r' \<Longrightarrow> m_version r' = m_version r \<and> m_expiry r' = m_expiry r \<and> m_original r' = m_original r"
  by (cases kv; auto simp: Root_add_key_def Root_add_role_def result_simps Let_def split: if_splits)+

lemma Root_ctor_wf:
  assumes "Root_ctor c repo json = Inr r"
  shows "Root_wf r" and "m_original r = json"
    and "bindE (json_path json [''signed'', ''version'']) asInt = Inr (m_version r)"
    and "bindE (json_path json [''signed'', ''expires'']) asString = Inr (m_expiry r)"
    and "length (m_expiry r) = 20"
proof -
  from assms obtain sobj version expiry keys r1 roles where
    sobj: "json_get json ''signed'' = Inr sobj"
    and version: "bindE (json_get sobj ''version'') asInt = Inr version"
    and expiry: "bindE (bindE (json_get sobj ''expires'') asString) TimeStamp_ctor = Inr expiry"
    and r1: "foldE (Root_add_key c repo)
              ((empty_root kCheck)\<lparr>m_version := version, m_expiry := expiry, m_original := json\<rparr>)
              (json_items keys) = Inr r1"
    and r: "foldE (Root_add_role repo) r1 (json_items roles) = Inr r"
    unfolding Root_ctor_def
    by (auto simp only: bindE_Inr_iff sum.inject sum.distinct split: if_splits) blast
  let ?P = "\<lambda>q. Root_wf q \<and> m_version q = version \<and> m_expiry q = expiry \<and> m_original q = json"
  have "Root_wf ((empty_root kCheck)\<lparr>m_version := version, m_expiry := expiry, m_original := json\<rparr>)"
    by (simp add: Root_wf_def empty_root_def)
  then have "?P r1"
    by (intro foldE_invariant [OF r1, where P = ?P])
      (auto dest: Root_add_key_wf Root_add_frame)
  then have *: "?P r"
    by (rule foldE_invariant [OF r]) (auto dest: Root_add_role_wf Root_add_frame)
  from expiry obtain s where s: "bindE (json_get sobj ''expires'') asString = Inr s" "TimeStamp_ctor s = Inr expiry"
    unfolding bindE_Inr_iff [where f = TimeStamp_ctor] by blast
  then have len: "s = expiry" "length expiry = 20" by (auto simp: TimeStamp_ctor_def split: if_splits)
  show "Root_wf r" "m_original r = json" using * by simp_all
  show "bindE (json_path json [''signed'', ''version'']) asInt = Inr (m_version r)"
    using * sobj version by (auto simp: bindE_Inr_iff)
  show "bindE (json_path json [''signed'', ''expires'']) asString = Inr (m_expiry r)"
    using * sobj s(1) len by (auto simp: bindE_Inr_iff)
  show "length (m_expiry r) = 20" using * len by simp
qed

text \<open>
  What a successful constructor shows of the metadata: a legal signature under the role its
  \<open>_type\<close> field names, and the fields read from the signed part.
\<close>

lemma BaseMeta_init_Inr:
  assumes "BaseMeta_init json = Inr m"
  shows "m_original m = json" and "length (m_expiry m) = 20"
    and "bindE (json_path json [''signed'', ''version'']) asInt = Inr (m_version m)"
proof -
  from assms have "m_original m = json \<and> length (m_expiry m) = 20 \<and>
      bindE (json_path json [''signed'', ''version'']) asInt = Inr (m_version m)"
    unfolding BaseMeta_init_def
    by (auto simp: bindE_Inr_iff catch_timestamp_def TimeStamp_ctor_def
        split: if_splits sum.splits exn.splits)
  then show "m_original m = json" and "length (m_expiry m) = 20"
    and "bindE (json_path json [''signed'', ''version'']) asInt = Inr (m_version m)" by simp_all
qed

lemma BaseMeta_ctor_verified_Inr:
  assumes "BaseMeta_ctor_verified c repo json r = Inr m"
  shows "UnpackSignedObject c r repo json = Inr ()" and "BaseMeta_init json = Inr m"
  using assms by (auto simp: BaseMeta_ctor_verified_def result_simps split: if_splits)

lemma Targets_init_Inr:
  assumes "Targets_init m json = Inr t"
  shows "json_path json [''signed'', ''_type''] = Inr (JString ''Targets'')"
    and "m_version t = m_version m" and "m_expiry t = m_expiry m" and "m_original t = m_original m"
  using assms
  by (auto simp: Targets_init_def bindE_Inr_iff basemeta.defs split: if_splits)

lemma TimestampMeta_init_Inr:
  assumes "TimestampMeta_init m json = Inr t"
  shows "json_path json [''signed'', ''_type''] = Inr (JString ''Timestamp'')"
    and "m_version t = m_version m" and "m_expiry t = m_expiry m" and "m_original t = m_original m"
  using assms
  by (auto simp: TimestampMeta_init_def bindE_Inr_iff basemeta.defs split: if_splits)

lemma Snapshot_init_Inr:
  assumes "Snapshot_init m json = Inr t"
  shows "json_path json [''signed'', ''_type''] = Inr (JString ''Snapshot'')"
    and "m_version t = m_version m" and "m_expiry t = m_expiry m" and "m_original t = m_original m"
  using assms
  by (auto simp: Snapshot_init_def bindE_Inr_iff basemeta.defs split: if_splits)

lemma UnpackSignedObject_role:
  assumes "r_policy r = kCheck" and "UnpackSignedObject c r repo json = Inr ()"
    and "json_path json [''signed'', ''_type''] = Inr (JString t)"
  shows "threshold_met c r json (Role_ctor t)"
  using assms UnpackSignedObject_Inr_iff [OF assms(1), of c repo json]
  by (auto simp: threshold_met_def bindE_Inr_iff)

lemma Targets_ctor_verified_Inr:
  assumes "Targets_ctor_verified c repo json r = Inr t" and "r_policy r = kCheck"
  shows "threshold_met c r json kTargets" and "m_original t = json" and "Targets_ctor json = Inr t"
    and "length (m_expiry t) = 20"
proof -
  from assms(1) obtain m where m: "BaseMeta_ctor_verified c repo json r = Inr m" "Targets_init m json = Inr t"
    by (auto simp: Targets_ctor_verified_def bindE_Inr_iff)
  note base = BaseMeta_ctor_verified_Inr [OF m(1)]
  show "threshold_met c r json kTargets"
    using UnpackSignedObject_role [OF assms(2) base(1) Targets_init_Inr(1) [OF m(2)]]
    by simp
  show "m_original t = json" "Targets_ctor json = Inr t" "length (m_expiry t) = 20"
    using m(2) base(2) BaseMeta_init_Inr [OF base(2)] Targets_init_Inr [OF m(2)]
    by (simp_all add: Targets_ctor_def)
qed

lemma TimestampMeta_ctor_verified_Inr:
  assumes "TimestampMeta_ctor_verified c repo json r = Inr t" and "r_policy r = kCheck"
  shows "threshold_met c r json kTimestamp" and "m_original t = json" and "TimestampMeta_ctor json = Inr t"
    and "length (m_expiry t) = 20"
proof -
  from assms(1) obtain m where m: "BaseMeta_ctor_verified c repo json r = Inr m" "TimestampMeta_init m json = Inr t"
    by (auto simp: TimestampMeta_ctor_verified_def bindE_Inr_iff)
  note base = BaseMeta_ctor_verified_Inr [OF m(1)]
  show "threshold_met c r json kTimestamp"
    using UnpackSignedObject_role [OF assms(2) base(1) TimestampMeta_init_Inr(1) [OF m(2)]]
    by simp
  show "m_original t = json" "TimestampMeta_ctor json = Inr t" "length (m_expiry t) = 20"
    using m(2) base(2) BaseMeta_init_Inr [OF base(2)] TimestampMeta_init_Inr [OF m(2)]
    by (simp_all add: TimestampMeta_ctor_def)
qed

lemma Snapshot_ctor_verified_Inr:
  assumes "Snapshot_ctor_verified c repo json r = Inr t" and "r_policy r = kCheck"
  shows "threshold_met c r json kSnapshot" and "m_original t = json" and "Snapshot_ctor json = Inr t"
    and "length (m_expiry t) = 20"
proof -
  from assms(1) obtain m where m: "BaseMeta_ctor_verified c repo json r = Inr m" "Snapshot_init m json = Inr t"
    by (auto simp: Snapshot_ctor_verified_def bindE_Inr_iff)
  note base = BaseMeta_ctor_verified_Inr [OF m(1)]
  show "threshold_met c r json kSnapshot"
    using UnpackSignedObject_role [OF assms(2) base(1) Snapshot_init_Inr(1) [OF m(2)]]
    by simp
  show "m_original t = json" "Snapshot_ctor json = Inr t" "length (m_expiry t) = 20"
    using m(2) base(2) BaseMeta_init_Inr [OF base(2)] Snapshot_init_Inr [OF m(2)]
    by (simp_all add: Snapshot_ctor_def)
qed

lemma Root_ctor_verified_Inr:
  assumes "Root_ctor_verified c repo json old = Inr r"
  shows "Root_ctor c repo json = Inr r" and "UnpackSignedObject c old repo json = Inr ()"
    and "UnpackSignedObject c r repo json = Inr ()"
  using assms by (auto simp: Root_ctor_verified_def bindE_Inr_iff)

end
