(* ===== verification/Repository.thy ===== *)
theory Repository
  imports Tuf_Root
begin

text \<open>
  The repositories of the client: \<open>RepositoryCommon\<close> (\<open>uptane/uptanerepository.cc\<close>),
  \<open>DirectorRepository\<close> and \<open>ImagesRepository\<close>.  A repository object is a record; a method that
  changes it returns its result, or the exception that leaves it, with the new object.
\<close>

section \<open>The common part\<close>

record repository =
  repo_root :: root
  repo_type :: repository_type

text \<open>
  \<open>initRoot\<close>: the first assignment takes place before the root is checked against itself, and the
  handler rethrows every exception.
\<close>

definition initRoot ::
  "crypto \<Rightarrow> 'a repository_scheme \<Rightarrow> string \<Rightarrow> (exn, bool) result \<times> 'a repository_scheme" where
  "initRoot c s root_raw =
     (case Root_ctor c (repo_type s) (parseJSON c root_raw) of
        Inl e \<Rightarrow> (Inl e, s)
      | Inr r1 \<Rightarrow>
          (let s1 = s\<lparr>repo_root := r1\<rparr>
           in case Root_ctor_verified c (repo_type s) (parseJSON c root_raw) (repo_root s1) of
                Inl e \<Rightarrow> (Inl e, s1)
              | Inr r2 \<Rightarrow> (Inr True, s1\<lparr>repo_root := r2\<rparr>)))"

text \<open>\<open>verifyRoot\<close>: the new root is in place when its version is compared.\<close>

definition verifyRoot ::
  "crypto \<Rightarrow> 'a repository_scheme \<Rightarrow> string \<Rightarrow> (exn, bool) result \<times> 'a repository_scheme" where
  "verifyRoot c s root_raw =
     (let prev_version = m_version (repo_root s)
      in case Root_ctor_verified c (repo_type s) (parseJSON c root_raw) (repo_root s) of
           Inl e \<Rightarrow> (if is_std_exception e then Inr False else Inl e, s)
         | Inr r \<Rightarrow>
             (if m_version r \<noteq> prev_version + 1 then Inr False else Inr True, s\<lparr>repo_root := r\<rparr>))"

definition resetRoot :: "'a repository_scheme \<Rightarrow> 'a repository_scheme" where
  "resetRoot s = s\<lparr>repo_root := empty_root kAcceptAll\<rparr>"

definition rootVersion :: "'a repository_scheme \<Rightarrow> int" where
  "rootVersion s = m_version (repo_root s)"

definition rootExpired :: "'a repository_scheme \<Rightarrow> string \<Rightarrow> bool" where
  "rootExpired s now = isExpired (repo_root s) now"

section \<open>The director repository\<close>

record director_repository = repository +
  d_targets :: targets
  d_last_exception :: exn

definition DirectorRepository_ctor :: director_repository where
  "DirectorRepository_ctor =
     \<lparr>repo_root = empty_root kRejectAll, repo_type = kDirector,
      d_targets = empty_targets, d_last_exception = UptaneException '''' ''''\<rparr>"

definition Director_resetMeta :: "director_repository \<Rightarrow> director_repository" where
  "Director_resetMeta s = (resetRoot s)\<lparr>d_targets := empty_targets\<rparr>"

definition Director_verifyTargets ::
  "crypto \<Rightarrow> director_repository \<Rightarrow> string \<Rightarrow> (exn, bool) result \<times> director_repository" where
  "Director_verifyTargets c s targets_raw =
     (case Targets_ctor_verified c kDirector (parseJSON c targets_raw) (repo_root s) of
        Inl e \<Rightarrow> (if is_uptane_exception e then (Inr False, s\<lparr>d_last_exception := e\<rparr>) else (Inl e, s))
      | Inr t \<Rightarrow> (Inr True, s\<lparr>d_targets := t\<rparr>))"

definition Director_targetsExpired :: "director_repository \<Rightarrow> string \<Rightarrow> bool" where
  "Director_targetsExpired s now = isExpired (d_targets s) now"

section \<open>The images repository\<close>

record images_repository = repository +
  i_targets :: targets
  i_timestamp :: timestamp_meta
  i_snapshot :: snapshot_meta
  i_last_exception :: exn

definition ImagesRepository_ctor :: images_repository where
  "ImagesRepository_ctor =
     \<lparr>repo_root = empty_root kRejectAll, repo_type = kImage,
      i_targets = empty_targets, i_timestamp = empty_timestamp, i_snapshot = empty_snapshot,
      i_last_exception = UptaneException '''' ''''\<rparr>"

definition Images_resetMeta :: "images_repository \<Rightarrow> images_repository" where
  "Images_resetMeta s =
     (resetRoot s)\<lparr>i_targets := empty_targets, i_snapshot := empty_snapshot,
                     i_timestamp := empty_timestamp\<rparr>"

definition Images_verifyTimestamp ::
  "crypto \<Rightarrow> images_repository \<Rightarrow> string \<Rightarrow> (exn, bool) result \<times> images_repository" where
  "Images_verifyTimestamp c s timestamp_raw =
     (case TimestampMeta_ctor_verified c kImage (parseJSON c timestamp_raw) (repo_root s) of
        Inl e \<Rightarrow> (if is_uptane_exception e then (Inr False, s\<lparr>i_last_exception := e\<rparr>) else (Inl e, s))
      | Inr t \<Rightarrow> (Inr True, s\<lparr>i_timestamp := t\<rparr>))"

text \<open>
  The loop that compares the digests of the canonical text with the listed hashes: \<open>None\<close> is the
  early return on a mismatch, otherwise whether a hash of a known algorithm was found.
\<close>

fun compare_hashes :: "crypto \<Rightarrow> string \<Rightarrow> bool \<Rightarrow> hash list \<Rightarrow> bool option" where
  "compare_hashes c canonical hash_exists [] = Some hash_exists"
| "compare_hashes c canonical hash_exists (it # its) =
     (case h_type it of
        kSha256 \<Rightarrow>
          (if Hash_of_type kSha256 (sha256digest_hex c canonical) \<noteq> it then None
           else compare_hashes c canonical True its)
      | kSha512 \<Rightarrow>
          (if Hash_of_type kSha512 (sha512digest_hex c canonical) \<noteq> it then None
           else compare_hashes c canonical True its)
      | kUnknownAlgorithm \<Rightarrow> compare_hashes c canonical hash_exists its)"

definition Images_verifySnapshot ::
  "crypto \<Rightarrow> images_repository \<Rightarrow> string \<Rightarrow> (exn, bool) result \<times> images_repository" where
  "Images_verifySnapshot c s snapshot_raw =
     (let json = parseJSON c snapshot_raw; canonical = FastWriter_write c json
      in case compare_hashes c canonical False (snapshot_hashes (i_timestamp s)) of
           None \<Rightarrow> (Inr False, s)
         | Some hash_exists \<Rightarrow>
             if \<not> hash_exists then (Inr False, s)
             else case Snapshot_ctor_verified c kImage json (repo_root s) of
                    Inl e \<Rightarrow> (if is_uptane_exception e then (Inr False, s\<lparr>i_last_exception := e\<rparr>)
                               else (Inl e, s))
                  | Inr sn \<Rightarrow>
                      (if m_version sn \<noteq> snapshot_version (i_timestamp s) then Inr False else Inr True,
                       s\<lparr>i_snapshot := sn\<rparr>))"

definition Images_verifyTargets ::
  "crypto \<Rightarrow> images_repository \<Rightarrow> string \<Rightarrow> (exn, bool) result \<times> images_repository" where
  "Images_verifyTargets c s targets_raw =
     (let json = parseJSON c targets_raw; canonical = FastWriter_write c json
      in case compare_hashes c canonical False (targets_hashes (i_snapshot s)) of
           None \<Rightarrow> (Inr False, s)
         | Some hash_exists \<Rightarrow>
             if \<not> hash_exists then (Inr False, s)
             else case Targets_ctor_verified c kImage json (repo_root s) of
                    Inl e \<Rightarrow> (if is_uptane_exception e then (Inr False, s\<lparr>i_last_exception := e\<rparr>)
                               else (Inl e, s))
                  | Inr t \<Rightarrow>
                      (if m_version t \<noteq> targets_version (i_snapshot s) then Inr False else Inr True,
                       s\<lparr>i_targets := t\<rparr>))"

definition Images_getTarget :: "images_repository \<Rightarrow> target \<Rightarrow> target option" where
  "Images_getTarget s director_target =
     find (\<lambda>t. Target_eq t director_target) (tgt_targets (i_targets s))"

definition Images_targetsExpired :: "images_repository \<Rightarrow> string \<Rightarrow> bool" where
  "Images_targetsExpired s now = isExpired (i_targets s) now"

definition Images_timestampExpired :: "images_repository \<Rightarrow> string \<Rightarrow> bool" where
  "Images_timestampExpired s now = isExpired (i_timestamp s) now"

definition Images_snapshotExpired :: "images_repository \<Rightarrow> string \<Rightarrow> bool" where
  "Images_snapshotExpired s now = isExpired (i_snapshot s) now"

section \<open>The digest comparison\<close>

text \<open>
  The text agrees with a list of hashes when every hash of a known algorithm is its digest and
  there is at least one.
\<close>

definition digest_of :: "crypto \<Rightarrow> string \<Rightarrow> hash_type \<Rightarrow> hash" where
  "digest_of c text k =
     Hash_of_type k (if k = kSha256 then sha256digest_hex c text else sha512digest_hex c text)"

definition matches_hashes :: "crypto \<Rightarrow> string \<Rightarrow> hash list \<Rightarrow> bool" where
  "matches_hashes c text hs \<longleftrightarrow>
     (\<exists>h \<in> set hs. HaveAlgorithm h) \<and>
     (\<forall>h \<in> set hs. HaveAlgorithm h \<longrightarrow> h = digest_of c text (h_type h))"

lemma compare_hashes_Some:
  "compare_hashes c text b hs = Some b' \<longleftrightarrow>
     b' = (b \<or> (\<exists>h \<in> set hs. HaveAlgorithm h)) \<and>
     (\<forall>h \<in> set hs. HaveAlgorithm h \<longrightarrow> digest_of c text (h_type h) = h)"
proof (induction hs arbitrary: b)
  case (Cons h hs)
  show ?case
  proof (cases "h_type h")
    case kSha256
    then show ?thesis using Cons.IH [of True] by (simp add: HaveAlgorithm_def digest_of_def)
  next
    case kSha512
    then show ?thesis using Cons.IH [of True] by (simp add: HaveAlgorithm_def digest_of_def)
  next
    case kUnknownAlgorithm
    then show ?thesis using Cons.IH [of b] by (simp add: HaveAlgorithm_def)
  qed
qed auto

lemma compare_hashes_True:
  "compare_hashes c text False hs = Some True \<longleftrightarrow> matches_hashes c text hs"
  by (auto simp: compare_hashes_Some matches_hashes_def)

section \<open>The contract of the verification methods\<close>

text \<open>
  Every method that verifies the metadata of one role keeps the root, and whatever it leaves in the
  object's slot for that role is either what was there or an object that the root's keys for the
  role have signed.  When it returns true, the slot holds the object it was given.
\<close>

locale role_verifier =
  fixes c :: crypto
    and verify :: "'s \<Rightarrow> string \<Rightarrow> (exn, bool) result \<times> 's"
    and root_of :: "'s \<Rightarrow> root"
    and stored :: "'s \<Rightarrow> json"
    and role :: role
  assumes verify_root: "root_of (snd (verify s raw)) = root_of s"
    and verify_stored:
      "r_policy (root_of s) = kCheck \<Longrightarrow>
       stored (snd (verify s raw)) = stored s \<or>
       threshold_met c (root_of s) (stored (snd (verify s raw))) role"
    and verify_true:
      "r_policy (root_of s) = kCheck \<Longrightarrow> fst (verify s raw) = Inr True \<Longrightarrow>
       stored (snd (verify s raw)) = parseJSON c raw \<and>
       threshold_met c (root_of s) (parseJSON c raw) role"
begin

definition attempts :: "'s \<Rightarrow> string list \<Rightarrow> 's" where
  "attempts = foldl (\<lambda>s raw. snd (verify s raw))"

lemma attempts_root: "root_of (attempts s raws) = root_of s"
  by (induction raws arbitrary: s) (simp_all add: attempts_def verify_root)

text \<open>No sequence of attempts, successful or not, installs metadata the root does not authorise.\<close>

lemma attempts_trusted:
  assumes "r_policy (root_of s) = kCheck"
  shows "stored (attempts s raws) = stored s \<or>
    threshold_met c (root_of s) (stored (attempts s raws)) role"
  using assms
proof (induction raws arbitrary: s)
  case (Cons raw raws)
  let ?s = "snd (verify s raw)"
  have "stored (attempts ?s raws) = stored ?s \<or>
      threshold_met c (root_of s) (stored (attempts ?s raws)) role"
    using Cons.IH [of ?s] Cons.prems by (simp add: verify_root)
  then show ?case
    using verify_stored [OF Cons.prems, of raw] by (auto simp: attempts_def)
qed (simp add: attempts_def)

end

lemma ctor_verified_signed:
  "Targets_ctor_verified c repo json r = Inr t \<Longrightarrow> r_policy r = kCheck \<Longrightarrow>
     threshold_met c r (m_original t) kTargets"
  "TimestampMeta_ctor_verified c repo json r = Inr ts \<Longrightarrow> r_policy r = kCheck \<Longrightarrow>
     threshold_met c r (m_original ts) kTimestamp"
  "Snapshot_ctor_verified c repo json r = Inr sn \<Longrightarrow> r_policy r = kCheck \<Longrightarrow>
     threshold_met c r (m_original sn) kSnapshot"
  by (simp_all add: Targets_ctor_verified_Inr(1,2) TimestampMeta_ctor_verified_Inr(1,2)
      Snapshot_ctor_verified_Inr(1,2))

interpretation director_targets: role_verifier c "Director_verifyTargets c" repo_root
  "\<lambda>s. m_original (d_targets s)" kTargets for c
  by unfold_locales
    (auto simp: Director_verifyTargets_def split: sum.splits if_splits
      dest: Targets_ctor_verified_Inr(1,2) ctor_verified_signed)

interpretation images_timestamp: role_verifier c "Images_verifyTimestamp c" repo_root
  "\<lambda>s. m_original (i_timestamp s)" kTimestamp for c
  by unfold_locales
    (auto simp: Images_verifyTimestamp_def split: sum.splits if_splits
      dest: TimestampMeta_ctor_verified_Inr(1,2) ctor_verified_signed)

interpretation images_snapshot: role_verifier c "Images_verifySnapshot c" repo_root
  "\<lambda>s. m_original (i_snapshot s)" kSnapshot for c
  by unfold_locales
    (auto simp: Images_verifySnapshot_def Let_def split: sum.splits option.splits if_splits
      dest: Snapshot_ctor_verified_Inr(1,2) ctor_verified_signed)

interpretation images_targets: role_verifier c "Images_verifyTargets c" repo_root
  "\<lambda>s. m_original (i_targets s)" kTargets for c
  by unfold_locales
    (auto simp: Images_verifyTargets_def Let_def split: sum.splits option.splits if_splits
      dest: Targets_ctor_verified_Inr(1,2) ctor_verified_signed)

section \<open>The chain of hashes and versions\<close>

lemma Images_verifySnapshot_True:
  assumes "Images_verifySnapshot c s raw = (Inr True, s')" and "r_policy (repo_root s) = kCheck"
  shows "matches_hashes c (FastWriter_write c (parseJSON c raw)) (snapshot_hashes (i_timestamp s))"
    and "m_version (i_snapshot s') = snapshot_version (i_timestamp s)"
    and "Snapshot_ctor (parseJSON c raw) = Inr (i_snapshot s')"
    and "i_timestamp s' = i_timestamp s"
  using assms
  by (auto simp: Images_verifySnapshot_def Let_def compare_hashes_True
      split: sum.splits option.splits if_splits dest: Snapshot_ctor_verified_Inr(3))

lemma Images_verifyTargets_True:
  assumes "Images_verifyTargets c s raw = (Inr True, s')" and "r_policy (repo_root s) = kCheck"
  shows "matches_hashes c (FastWriter_write c (parseJSON c raw)) (targets_hashes (i_snapshot s))"
    and "m_version (i_targets s') = targets_version (i_snapshot s)"
    and "Targets_ctor (parseJSON c raw) = Inr (i_targets s')"
    and "i_timestamp s' = i_timestamp s" and "i_snapshot s' = i_snapshot s"
  using assms
  by (auto simp: Images_verifyTargets_def Let_def compare_hashes_True
      split: sum.splits option.splits if_splits dest: Targets_ctor_verified_Inr(3))

lemma Images_verify_in_sequence:
  assumes "r_policy (repo_root s) = kCheck"
    and "Images_verifyTimestamp c s ts_raw = (Inr True, s1)"
    and "Images_verifySnapshot c s1 sn_raw = (Inr True, s2)"
    and "Images_verifyTargets c s2 tg_raw = (Inr True, s3)"
  shows "repo_root s3 = repo_root s \<and>
    threshold_met c (repo_root s) (parseJSON c ts_raw) kTimestamp \<and>
    threshold_met c (repo_root s) (parseJSON c sn_raw) kSnapshot \<and>
    threshold_met c (repo_root s) (parseJSON c tg_raw) kTargets \<and>
    matches_hashes c (FastWriter_write c (parseJSON c sn_raw)) (snapshot_hashes (i_timestamp s3)) \<and>
    m_version (i_snapshot s3) = snapshot_version (i_timestamp s3) \<and>
    matches_hashes c (FastWriter_write c (parseJSON c tg_raw)) (targets_hashes (i_snapshot s3)) \<and>
    m_version (i_targets s3) = targets_version (i_snapshot s3) \<and>
    Targets_ctor (parseJSON c tg_raw) = Inr (i_targets s3)"
proof -
  have root: "repo_root s1 = repo_root s" "repo_root s2 = repo_root s" "repo_root s3 = repo_root s"
    using images_timestamp.verify_root [of c s ts_raw] images_snapshot.verify_root [of c s1 sn_raw]
      images_targets.verify_root [of c s2 tg_raw] assms(2-4) by simp_all
  then have policy: "r_policy (repo_root s1) = kCheck" "r_policy (repo_root s2) = kCheck"
    using assms(1) by simp_all
  have "threshold_met c (repo_root s) (parseJSON c ts_raw) kTimestamp"
    "threshold_met c (repo_root s) (parseJSON c sn_raw) kSnapshot"
    "threshold_met c (repo_root s) (parseJSON c tg_raw) kTargets"
    using images_timestamp.verify_true [of s c ts_raw] images_snapshot.verify_true [of s1 c sn_raw]
      images_targets.verify_true [of s2 c tg_raw] assms policy root by simp_all
  then show ?thesis
    using root Images_verifySnapshot_True [OF assms(3) policy(1)]
      Images_verifyTargets_True [OF assms(4) policy(2)] by simp
qed

section \<open>The root\<close>

lemma verifyRoot_True:
  assumes "verifyRoot c s raw = (Inr True, s')"
  shows "m_version (repo_root s') = m_version (repo_root s) + 1"
    and "Root_ctor c (repo_type s) (parseJSON c raw) = Inr (repo_root s')"
    and "UnpackSignedObject c (repo_root s) (repo_type s) (parseJSON c raw) = Inr ()"
    and "UnpackSignedObject c (repo_root s') (repo_type s) (parseJSON c raw) = Inr ()"
    and "Root_wf (repo_root s')"
    and "s' = s\<lparr>repo_root := repo_root s'\<rparr>"
proof -
  from assms have r: "Root_ctor_verified c (repo_type s) (parseJSON c raw) (repo_root s) = Inr (repo_root s')"
    and v: "m_version (repo_root s') = m_version (repo_root s) + 1" and s': "s' = s\<lparr>repo_root := repo_root s'\<rparr>"
    by (auto simp: verifyRoot_def Let_def split: sum.splits if_splits)
  note parts = Root_ctor_verified_Inr [OF r]
  show "m_version (repo_root s') = m_version (repo_root s) + 1" "s' = s\<lparr>repo_root := repo_root s'\<rparr>"
    by (fact v s')+
  show "Root_ctor c (repo_type s) (parseJSON c raw) = Inr (repo_root s')"
    "UnpackSignedObject c (repo_root s) (repo_type s) (parseJSON c raw) = Inr ()"
    "UnpackSignedObject c (repo_root s') (repo_type s) (parseJSON c raw) = Inr ()"
    by (fact parts)+
  show "Root_wf (repo_root s')" by (rule Root_ctor_wf(1) [OF parts(1)])
qed

end
