(* ===== verification/Samples.thy ===== *)
theory Samples
  imports Repository
begin

text \<open>
  Concrete metadata for the instances of the theorems: a small repository with two Ed25519 keys,
  and an instance of the parameter record in which a signature is the public key followed by
  the signed text.
\<close>

definition sample_write :: "json \<Rightarrow> string" where
  "sample_write j =
     (case json_path j [''_type''] of
        Inr (JString s) \<Rightarrow> s
      | _ \<Rightarrow> (case json_path j [''signed'', ''_type''] of Inr (JString s) \<Rightarrow> s | _ \<Rightarrow> ''?''))"

definition sample_key :: "string \<Rightarrow> json" where
  "sample_key p = JObject [(''keytype'', JString ''ED25519''), (''keyval'', JObject [(''public'', JString p)])]"

definition sample_role :: "string list \<Rightarrow> int \<Rightarrow> json" where
  "sample_role ids threshold =
     JObject [(''keyids'', JArray (map JString ids)), (''threshold'', JInt threshold)]"

definition sample_signature :: "string \<Rightarrow> string \<Rightarrow> string \<Rightarrow> json" where
  "sample_signature keyid pub text =
     JObject [(''keyid'', JString keyid), (''method'', JString ''ed25519''), (''sig'', JString (pub @ text))]"

definition sample_signed :: "(string \<times> json) list \<Rightarrow> json list \<Rightarrow> json" where
  "sample_signed ms sigs = JObject [(''signatures'', JArray sigs), (''signed'', JObject ms)]"

definition sample_root_json :: "int \<Rightarrow> json" where
  "sample_root_json version =
     sample_signed
       [(''_type'', JString ''Root''), (''expires'', JString ''2030-01-01T00:00:00Z''),
        (''keys'', JObject [(''k1'', sample_key ''P1''), (''k2'', sample_key ''P2'')]),
        (''roles'', JObject [(''root'', sample_role [''k1'', ''k2''] 2),
                           (''snapshot'', sample_role [''k1''] 1),
                           (''targets'', sample_role [''k1'', ''k2''] 1),
                           (''timestamp'', sample_role [''k2''] 1)]),
        (''version'', JInt version)]
       [sample_signature ''k1'' ''P1'' ''Root'', sample_signature ''k2'' ''P2'' ''Root'']"

definition sample_target_json :: json where
  "sample_target_json =
     JObject [(''custom'', JObject [(''ecuIdentifiers'',
                                    JObject [(''ecu1'', JObject [(''hardwareId'', JString ''hw1'')])])]),
              (''hashes'', JObject [(''sha256'', JString ''ab'')]), (''length'', JInt 3)]"

definition sample_targets_json :: "int \<Rightarrow> json" where
  "sample_targets_json version =
     sample_signed
       [(''_type'', JString ''Targets''), (''expires'', JString ''2030-01-01T00:00:00Z''),
        (''targets'', JObject [(''fw'', sample_target_json)]), (''version'', JInt version)]
       [sample_signature ''k1'' ''P1'' ''Targets'']"

definition sample_link :: "string \<Rightarrow> string \<Rightarrow> int \<Rightarrow> json" where
  "sample_link file digest version =
     JObject [(file, JObject [(''hashes'', JObject [(''sha256'', JString digest)]),
                              (''length'', JInt 100), (''version'', JInt version)])]"

definition sample_snapshot_json :: "int \<Rightarrow> json" where
  "sample_snapshot_json version =
     sample_signed
       [(''_type'', JString ''Snapshot''), (''expires'', JString ''2030-01-01T00:00:00Z''),
        (''meta'', sample_link ''targets.json'' ''Targets'' 1), (''version'', JInt version)]
       [sample_signature ''k1'' ''P1'' ''Snapshot'']"

definition sample_timestamp_json :: "int \<Rightarrow> json" where
  "sample_timestamp_json version =
     sample_signed
       [(''_type'', JString ''Timestamp''), (''expires'', JString ''2030-01-01T00:00:00Z''),
        (''meta'', sample_link ''snapshot.json'' ''Snapshot'' 1), (''version'', JInt version)]
       [sample_signature ''k2'' ''P2'' ''Timestamp'']"

text \<open>The text of a file is its role and version; the reader maps it to the sample value.\<close>

definition sample_parse :: "string \<Rightarrow> json" where
  "sample_parse raw =
     (if raw = ''root1'' then sample_root_json 1
      else if raw = ''root2'' then sample_root_json 2
      else if raw = ''targets1'' then sample_targets_json 1
      else if raw = ''snapshot1'' then sample_snapshot_json 1
      else if raw = ''timestamp1'' then sample_timestamp_json 1
      else JNull)"

definition sample_crypto :: crypto where
  "sample_crypto =
     \<lparr>ED25519Verify = (\<lambda>key sig text. Inr (sig = key @ text)),
      RSAPSSVerify = (\<lambda>key sig text. Inr False),
      IdentifyRSAKeyType = (\<lambda>_. kUnknownKey),
      sha256digest_hex = (\<lambda>s. s), sha512digest_hex = (\<lambda>s. s),
      FastWriter_write = sample_write, parseJSON = sample_parse\<rparr>"

definition sample_public_key :: "string \<Rightarrow> public_key" where
  "sample_public_key p = \<lparr>pk_value = p, pk_type = kED25519\<rparr>"

definition sample_root :: "int \<Rightarrow> root" where
  "sample_root version =
     \<lparr>m_version = version, m_expiry = ''2030-01-01T00:00:00Z'', m_original = sample_root_json version,
      r_policy = kCheck,
      r_keys = [(''k1'', sample_public_key ''P1''), (''k2'', sample_public_key ''P2'')],
      r_keys_for_role = [(kRoot, ''k1''), (kRoot, ''k2''), (kSnapshot, ''k1''), (kTargets, ''k1''),
                         (kTargets, ''k2''), (kTimestamp, ''k2'')],
      r_thresholds = [kRoot \<mapsto> 2, kSnapshot \<mapsto> 1, kTargets \<mapsto> 1, kTimestamp \<mapsto> 1]\<rparr>"

lemma sample_root_policy [simp]: "r_policy (sample_root v) = kCheck"
  by (simp add: sample_root_def)

lemma sample_unpack_root: "UnpackSignedObject sample_crypto (sample_root 1) kDirector (sample_root_json 2) = Inr ()"
  by code_simp

lemma sample_verifyTargets:
  "fst (Director_verifyTargets sample_crypto (DirectorRepository_ctor\<lparr>repo_root := sample_root 1\<rparr>) ''targets1'') = Inr True"
  by code_simp

end
