(* ===== verification/Uptane_Properties.thy ===== *)
theory Uptane_Properties
  imports Samples
begin

text \<open>
  The properties of the metadata types, of the signature check and of the repositories, each
  with an instance on the sample metadata where it has hypotheses.
\<close>

section \<open>Signatures and the root\<close>



text \<open>
  C2. When \<open>verifyRoot\<close> returns true under a root that checks signatures, the new root's version is
  the old one plus one, and both the old and the new root's thresholds are met, by
  signatures of the new root, for the role that the new root's \<open>_type\<close> names.
\<close>

theorem verifyRoot_chain:
  assumes "fst (verifyRoot c s raw) = Inr True" and "r_policy (repo_root s) = kCheck"
  shows "m_version (repo_root (snd (verifyRoot c s raw))) = m_version (repo_root s) + 1 \<and>
    Root_wf (repo_root (snd (verifyRoot c s raw))) \<and>
    (\<exists>role. threshold_met c (repo_root s) (parseJSON c raw) role \<and>
            threshold_met c (repo_root (snd (verifyRoot c s raw))) (parseJSON c raw) role)"
proof -
  have ok: "verifyRoot c s raw = (Inr True, snd (verifyRoot c s raw))"
    using assms(1) by (metis prod.collapse)
  note new = verifyRoot_True [OF ok]
  have "r_policy (repo_root (snd (verifyRoot c s raw))) = kCheck"
    using new(5) by (simp add: Root_wf_def)
  from new(3,4) UnpackSignedObject_Inr_iff [OF assms(2)] UnpackSignedObject_Inr_iff [OF this]
  obtain role role' where "threshold_met c (repo_root s) (parseJSON c raw) role"
    "threshold_met c (repo_root (snd (verifyRoot c s raw))) (parseJSON c raw) role'"
    by blast
  moreover from this have "role' = role" by (auto simp: threshold_met_def)
  ultimately show ?thesis using new(1,5) by blast
qed

definition sample_director :: director_repository where
  "sample_director = DirectorRepository_ctor\<lparr>repo_root := sample_root 1\<rparr>"

lemma sample_director_root [simp]: "repo_root sample_director = sample_root 1"
  by (simp add: sample_director_def)

lemma sample_verifyRoot: "fst (verifyRoot sample_crypto sample_director ''root2'') = Inr True"
  by code_simp

theorem verifyRoot_chain_witness:
  "fst (verifyRoot sample_crypto sample_director ''root2'') = Inr True \<and>
   m_version (repo_root (snd (verifyRoot sample_crypto sample_director ''root2''))) = 2"
  using verifyRoot_chain [of sample_crypto sample_director "''root2''"] sample_verifyRoot
  by (simp add: sample_root_def)

text \<open>
  C3. \<open>verifyRoot\<close> never installs a root that is not doubly signed: whatever it returns or throws, the
  repository's root is the old one, or a well-formed root that both the old root and itself accept.
\<close>

theorem verifyRoot_never_installs_unsigned:
  "repo_root (snd (verifyRoot c s raw)) = repo_root s \<or>
   (UnpackSignedObject c (repo_root s) (repo_type s) (parseJSON c raw) = Inr () \<and>
    UnpackSignedObject c (repo_root (snd (verifyRoot c s raw))) (repo_type s) (parseJSON c raw) = Inr () \<and>
    Root_wf (repo_root (snd (verifyRoot c s raw))))"
proof (cases "Root_ctor_verified c (repo_type s) (parseJSON c raw) (repo_root s)")
  case (Inr r)
  then have "repo_root (snd (verifyRoot c s raw)) = r" by (simp add: verifyRoot_def Let_def)
  with Root_ctor_verified_Inr [OF Inr] show ?thesis by (auto intro: Root_ctor_wf(1))
qed (simp add: verifyRoot_def Let_def)

section \<open>The images repository\<close>


definition sample_images :: images_repository where
  "sample_images = ImagesRepository_ctor\<lparr>repo_root := sample_root 1\<rparr>"

definition sample_timestamp :: timestamp_meta where
  "sample_timestamp =
     \<lparr>m_version = 1, m_expiry = ''2030-01-01T00:00:00Z'', m_original = sample_timestamp_json 1,
      snapshot_hashes = [Hash_ctor ''sha256'' ''Snapshot''], snapshot_size = 100, snapshot_version = 1\<rparr>"

definition sample_snapshot :: snapshot_meta where
  "sample_snapshot =
     \<lparr>m_version = 1, m_expiry = ''2030-01-01T00:00:00Z'', m_original = sample_snapshot_json 1,
      targets_hashes = [Hash_ctor ''sha256'' ''Targets''], targets_size = 100, targets_version = 1\<rparr>"

lemma sample_ctors:
  "TimestampMeta_ctor_verified sample_crypto kImage (sample_parse ''timestamp1'') (sample_root 1) = Inr sample_timestamp"
  "Snapshot_ctor_verified sample_crypto kImage (sample_parse ''snapshot1'') (sample_root 1) = Inr sample_snapshot"
  by code_simp+

lemma sample_images_steps:
  "Images_verifyTimestamp sample_crypto sample_images ''timestamp1'' =
     (Inr True, sample_images\<lparr>i_timestamp := sample_timestamp\<rparr>)"
  "Images_verifySnapshot sample_crypto (sample_images\<lparr>i_timestamp := sample_timestamp\<rparr>) ''snapshot1'' =
     (Inr True, sample_images\<lparr>i_timestamp := sample_timestamp, i_snapshot := sample_snapshot\<rparr>)"
proof -
  have fields: "parseJSON sample_crypto = sample_parse" "repo_root sample_images = sample_root 1"
    by (simp_all add: sample_crypto_def sample_images_def)
  have hash: "compare_hashes sample_crypto
      (FastWriter_write sample_crypto (sample_parse ''snapshot1'')) False (snapshot_hashes sample_timestamp) = Some True"
    by code_simp
  show "Images_verifyTimestamp sample_crypto sample_images ''timestamp1'' =
     (Inr True, sample_images\<lparr>i_timestamp := sample_timestamp\<rparr>)"
    by (simp add: Images_verifyTimestamp_def fields sample_ctors)
  show "Images_verifySnapshot sample_crypto (sample_images\<lparr>i_timestamp := sample_timestamp\<rparr>) ''snapshot1'' =
     (Inr True, sample_images\<lparr>i_timestamp := sample_timestamp, i_snapshot := sample_snapshot\<rparr>)"
    using hash
    by (simp add: Images_verifySnapshot_def fields sample_ctors Let_def)
      (simp add: sample_snapshot_def sample_timestamp_def)
qed

lemma sample_images_targets:
  "fst (Images_verifyTargets sample_crypto
     (sample_images\<lparr>i_timestamp := sample_timestamp, i_snapshot := sample_snapshot\<rparr>) ''targets1'') = Inr True"
  by code_simp


text \<open>
  C5. \<open>getTarget\<close> returns an images target that agrees with the director's target (same name and
  length, no contradicting hash, one hash in common), and returns nothing only when no images target
  agrees.
\<close>

theorem getTarget_correct:
  "case Images_getTarget s d of
     Some t \<Rightarrow> t \<in> set (tgt_targets (i_targets s)) \<and> targets_agree t d
   | None \<Rightarrow> \<not> (\<exists>t \<in> set (tgt_targets (i_targets s)). targets_agree t d)"
proof (cases "Images_getTarget s d")
  case None
  then have "\<not> (\<exists>t \<in> set (tgt_targets (i_targets s)). Target_eq t d)"
    unfolding Images_getTarget_def find_None_iff by blast
  with None show ?thesis by (simp add: Target_eq_iff)
next
  case (Some t)
  then have "t \<in> set (tgt_targets (i_targets s)) \<and> Target_eq t d"
    unfolding Images_getTarget_def find_Some_iff by (metis nth_mem)
  with Some show ?thesis by (simp add: Target_eq_iff)
qed

text \<open>
  C6. Target equality is symmetric and is exactly the requirement stated beside it in the source.
\<close>

theorem Target_eq_spec:
  "Target_eq t1 t2 = targets_agree t1 t2 \<and> Target_eq t1 t2 = Target_eq t2 t1"
  using targets_agree_sym by (auto simp: Target_eq_iff)

section \<open>The director repository\<close>

text \<open>
  C7. No sequence of calls of the director's \<open>verifyTargets\<close>, whatever their results, leaves targets
  in place that are neither the initial ones nor signed by the root's targets keys.
\<close>

theorem director_targets_trusted:
  assumes "r_policy (repo_root s) = kCheck"
  shows "let s' = foldl (\<lambda>s raw. snd (Director_verifyTargets c s raw)) s raws
    in repo_root s' = repo_root s \<and>
       (m_original (d_targets s') = m_original (d_targets s) \<or>
        threshold_met c (repo_root s) (m_original (d_targets s')) kTargets)"
  using director_targets.attempts_trusted [OF assms, of c raws]
    director_targets.attempts_root [of c s raws]
  by (simp add: director_targets.attempts_def Let_def)

theorem director_targets_trusted_witness:
  "r_policy (repo_root sample_director) = kCheck \<and>
   repo_root (foldl (\<lambda>s raw. snd (Director_verifyTargets sample_crypto s raw)) sample_director
     [''targets1'', ''junk'']) = sample_root 1"
  using director_targets_trusted [of sample_director sample_crypto "[''targets1'', ''junk'']"]
  by (simp add: Let_def)

section \<open>Metadata types\<close>



text \<open>
  C9. A root that the constructor accepts checks signatures, has only thresholds between 1 and
  1000, none for an unknown role, and carries the version of the JSON value it was read from.
\<close>

theorem Root_ctor_well_formed:
  assumes "Root_ctor c repo json = Inr r"
  shows "Root_wf r \<and> m_original r = json \<and>
    bindE (json_path json [''signed'', ''version'']) asInt = Inr (m_version r) \<and>
    length (m_expiry r) = 20"
  using Root_ctor_wf [OF assms] by blast

lemma sample_root_ctor: "\<exists>r. Root_ctor sample_crypto kDirector (sample_root_json 1) = Inr r"
proof -
  have "\<not> isl (Root_ctor sample_crypto kDirector (sample_root_json 1))" by code_simp
  then show ?thesis by (cases "Root_ctor sample_crypto kDirector (sample_root_json 1)") auto
qed

theorem Root_ctor_well_formed_witness:
  "\<exists>r. Root_ctor sample_crypto kDirector (sample_root_json 1) = Inr r \<and> Root_wf r"
  using sample_root_ctor Root_ctor_well_formed by blast

text \<open>
  C10. A target read from metadata has only hashes of known type, in upper case and by priority,
  ECU serials of 1 to 64 characters without repetition, and hardware ids of at most 200 characters.
\<close>

theorem Target_ctor_well_formed:
  assumes "Target_ctor filename content = Inr t"
  shows "Target_wf t \<and> t_filename t = filename"
  using Target_ctor_wf [OF assms] by simp

theorem Target_ctor_well_formed_witness:
  "\<exists>t. Target_ctor ''fw'' sample_target_json = Inr t \<and> Target_wf t"
proof -
  have "\<not> isl (Target_ctor ''fw'' sample_target_json)" by code_simp
  then obtain t where "Target_ctor ''fw'' sample_target_json = Inr t"
    by (cases "Target_ctor ''fw'' sample_target_json") auto
  then show ?thesis using Target_ctor_well_formed by blast
qed

end
