(* ===== verification/Sql_Storage.thy ===== *)
theory Sql_Storage
  imports Tuf_Root "HOL-Library.Multiset"
begin

text \<open>
  The tables of \<open>storage/sqlstorage.cc\<close> (\<open>config/sql/schema.sql\<close>) and the methods of
  \<open>SQLStorage\<close> that read and write them.  A table is the list of its rows in insertion order and a
  statement is the list operation that SQLite documents for it; a statement fails only when it would
  break a \<open>UNIQUE\<close> constraint, and then the open transaction is rolled back.
\<close>

section \<open>Rows and tables\<close>

record meta_row =
  mr_meta :: string
  mr_repo :: repository_type
  mr_type :: role
  mr_version :: int

record installed_row =
  iv_ecu_serial :: string
  iv_sha256 :: string
  iv_name :: string
  iv_hashes :: string
  iv_length :: int
  iv_correlation_id :: string
  iv_is_current :: bool
  iv_is_pending :: bool

record ecu_row =
  es_serial :: string
  es_hardware_id :: string
  es_is_primary :: bool

datatype ecu_state = kOld | kNotRegistered

record misconfigured_ecu =
  me_serial :: string
  me_hardware_id :: string
  me_state :: ecu_state

record operation_result =
  or_id :: string
  or_result_code :: int
  or_result_text :: string

record db =
  db_meta :: "meta_row list"
  db_device_info :: "(string \<times> bool) option"
  db_need_reboot :: "bool option"
  db_ecu_serials :: "ecu_row list"
  db_misconfigured_ecus :: "misconfigured_ecu list"
  db_installed_versions :: "installed_row list"
  db_installation_result :: "operation_result option"

text \<open>Texts are bound as, and blobs are read back as, NUL-terminated C strings.\<close>

definition c_str :: "string \<Rightarrow> string" where
  "c_str s = takeWhile (\<lambda>ch. ch \<noteq> CHR 0x00) s"

lemma c_str_id: "CHR 0x00 \<notin> set s \<Longrightarrow> c_str s = s"
  by (auto simp: c_str_def takeWhile_eq_all_conv)

lemma c_str_no_NUL [simp]: "CHR 0x00 \<notin> set (c_str s)"
  by (auto simp: c_str_def dest: set_takeWhileD)

lemma c_str_idem [simp]: "c_str (c_str s) = c_str s"
  by (rule c_str_id) simp

section \<open>Metadata\<close>

definition storeRoot :: "db \<Rightarrow> string \<Rightarrow> repository_type \<Rightarrow> int \<Rightarrow> db" where
  "storeRoot d data repo version =
     (let kept = filter (\<lambda>r. \<not> (mr_repo r = repo \<and> mr_type r = kRoot \<and> mr_version r = version)) (db_meta d)
      in d\<lparr>db_meta := kept @ [\<lparr>mr_meta = data, mr_repo = repo, mr_type = kRoot, mr_version = version\<rparr>]\<rparr>)"

definition storeNonRoot :: "db \<Rightarrow> string \<Rightarrow> repository_type \<Rightarrow> role \<Rightarrow> db" where
  "storeNonRoot d data repo role =
     (let kept = filter (\<lambda>r. \<not> (mr_repo r = repo \<and> mr_type r = role)) (db_meta d)
      in d\<lparr>db_meta := kept @ [\<lparr>mr_meta = data, mr_repo = repo, mr_type = role, mr_version = ANY_VERSION\<rparr>]\<rparr>)"

text \<open>\<open>ORDER BY version DESC LIMIT 1\<close>; versions are unique within a repository and type.\<close>

fun select_latest :: "meta_row list \<Rightarrow> meta_row option" where
  "select_latest [] = None"
| "select_latest (r # rs) =
     (case select_latest rs of
        None \<Rightarrow> Some r
      | Some r' \<Rightarrow> if mr_version r < mr_version r' then Some r' else Some r)"

definition select_meta :: "db \<Rightarrow> repository_type \<Rightarrow> role \<Rightarrow> meta_row list" where
  "select_meta d repo role = filter (\<lambda>r. mr_repo r = repo \<and> mr_type r = role) (db_meta d)"

text \<open>The result is the text stored through the output pointer, \<open>None\<close> is the result false.\<close>

definition loadRoot :: "db \<Rightarrow> repository_type \<Rightarrow> int \<Rightarrow> string option" where
  "loadRoot d repo version =
     (if version < 0
      then map_option (\<lambda>r. c_str (mr_meta r)) (select_latest (select_meta d repo kRoot))
      else map_option (\<lambda>r. c_str (mr_meta r))
             (find (\<lambda>r. mr_version r = version) (select_meta d repo kRoot)))"

definition loadNonRoot :: "db \<Rightarrow> repository_type \<Rightarrow> role \<Rightarrow> string option" where
  "loadNonRoot d repo role =
     map_option (\<lambda>r. c_str (mr_meta r)) (select_latest (select_meta d repo role))"

definition clearNonRootMeta :: "db \<Rightarrow> repository_type \<Rightarrow> db" where
  "clearNonRootMeta d repo =
     d\<lparr>db_meta := filter (\<lambda>r. \<not> (mr_repo r = repo \<and> mr_type r \<noteq> kRoot)) (db_meta d)\<rparr>"

definition clearMetadata :: "db \<Rightarrow> db" where
  "clearMetadata d = d\<lparr>db_meta := []\<rparr>"

text \<open>
  \<open>cleanMetaVersion\<close> moves metadata stored without a version (after a migration) to the version that
  its text names.
\<close>

definition cleanMetaVersion :: "crypto \<Rightarrow> db \<Rightarrow> repository_type \<Rightarrow> role \<Rightarrow> (exn, db) result" where
  "cleanMetaVersion c d repo role =
     (case find (\<lambda>r. mr_version r = -1) (select_meta d repo role) of
        None \<Rightarrow> Inr d
      | Some row \<Rightarrow>
          bindE (extractVersionUntrusted c (c_str (mr_meta row))) (\<lambda>version.
          if version < 0 then Inr d
          else
            let kept = filter (\<lambda>r. \<not> (mr_repo r = repo \<and> mr_type r = role \<and> mr_version r = version)) (db_meta d)
            in Inr (d\<lparr>db_meta := map (\<lambda>r. if mr_repo r = repo \<and> mr_type r = role \<and> mr_version r = -1
                                             then r\<lparr>mr_version := version\<rparr> else r) kept\<rparr>)))"

section \<open>Device, ECUs and flags\<close>

definition storeDeviceId :: "db \<Rightarrow> string \<Rightarrow> db" where
  "storeDeviceId d device_id = d\<lparr>db_device_info := Some (c_str device_id, False)\<rparr>"

definition loadDeviceId :: "db \<Rightarrow> string option" where
  "loadDeviceId d = map_option fst (db_device_info d)"

definition clearDeviceId :: "db \<Rightarrow> db" where
  "clearDeviceId d = d\<lparr>db_device_info := None\<rparr>"

definition storeEcuRegistered :: "db \<Rightarrow> (exn, db) result" where
  "storeEcuRegistered d =
     (case db_device_info d of
        None \<Rightarrow> Inl (RuntimeError ''Cannot set ecu registered if no device_info set'')
      | Some (i, _) \<Rightarrow> Inr (d\<lparr>db_device_info := Some (i, True)\<rparr>))"

definition loadEcuRegistered :: "db \<Rightarrow> bool" where
  "loadEcuRegistered d = (case db_device_info d of None \<Rightarrow> False | Some (_, r) \<Rightarrow> r)"

definition clearEcuRegistered :: "db \<Rightarrow> db" where
  "clearEcuRegistered d = d\<lparr>db_device_info := map_option (\<lambda>(i, _). (i, False)) (db_device_info d)\<rparr>"

definition storeNeedReboot :: "db \<Rightarrow> db" where
  "storeNeedReboot d = d\<lparr>db_need_reboot := Some True\<rparr>"

definition loadNeedReboot :: "db \<Rightarrow> bool" where
  "loadNeedReboot d = (case db_need_reboot d of None \<Rightarrow> False | Some flag \<Rightarrow> flag)"

definition clearNeedReboot :: "db \<Rightarrow> db" where
  "clearNeedReboot d = d\<lparr>db_need_reboot := None\<rparr>"

definition iv_key :: "installed_row \<Rightarrow> string \<times> string \<times> string" where
  "iv_key r = (iv_ecu_serial r, iv_sha256 r, iv_name r)"

text \<open>
  \<open>storeEcuSerials\<close>: the first serial is the primary's.  A repeated serial, or a lazily stored
  installed version that clashes with one already stored for the primary, fails the transaction.
\<close>

definition storeEcuSerials :: "db \<Rightarrow> (string \<times> string) list \<Rightarrow> db" where
  "storeEcuSerials d serials =
     (case serials of
        [] \<Rightarrow> d
      | (serial, hwid) # others \<Rightarrow>
          let rows = \<lparr>es_serial = c_str serial, es_hardware_id = c_str hwid, es_is_primary = True\<rparr> #
                     map (\<lambda>(s, h). \<lparr>es_serial = c_str s, es_hardware_id = c_str h, es_is_primary = False\<rparr>) others;
              versions = map (\<lambda>r. if iv_ecu_serial r = '''' then r\<lparr>iv_ecu_serial := c_str serial\<rparr> else r)
                           (db_installed_versions d)
          in if distinct (map iv_key versions) \<and> distinct (map es_serial rows)
             then d\<lparr>db_ecu_serials := rows, db_installed_versions := versions\<rparr>
             else d)"

text \<open>\<open>ORDER BY is_primary DESC\<close>; a stored serial or identifier of illegal length throws.\<close>

definition loadEcuSerials :: "db \<Rightarrow> (exn, (string \<times> string) list option) result" where
  "loadEcuSerials d =
     (let rows = filter es_is_primary (db_ecu_serials d) @ filter (\<lambda>r. \<not> es_is_primary r) (db_ecu_serials d)
      in bindE (mapE (\<lambda>r. bindE (EcuSerial_ctor (es_serial r)) (\<lambda>s.
                          bindE (HardwareIdentifier_ctor (es_hardware_id r)) (\<lambda>h. Inr (s, h)))) rows) (\<lambda>serials.
         Inr (if serials = [] then None else Some serials)))"

definition clearEcuSerials :: "db \<Rightarrow> db" where
  "clearEcuSerials d = d\<lparr>db_ecu_serials := []\<rparr>"

definition storeMisconfiguredEcus :: "db \<Rightarrow> misconfigured_ecu list \<Rightarrow> db" where
  "storeMisconfiguredEcus d ecus =
     (if ecus = [] then d
      else let rows = map (\<lambda>e. e\<lparr>me_serial := c_str (me_serial e), me_hardware_id := c_str (me_hardware_id e)\<rparr>) ecus
           in if distinct (map me_serial rows) then d\<lparr>db_misconfigured_ecus := rows\<rparr> else d)"

definition loadMisconfiguredEcus :: "db \<Rightarrow> (exn, misconfigured_ecu list option) result" where
  "loadMisconfiguredEcus d =
     bindE (mapE (\<lambda>r. bindE (EcuSerial_ctor (me_serial r)) (\<lambda>_.
                      bindE (HardwareIdentifier_ctor (me_hardware_id r)) (\<lambda>_. Inr r)))
              (db_misconfigured_ecus d)) (\<lambda>ecus.
     Inr (if ecus = [] then None else Some ecus))"

definition clearMisconfiguredEcus :: "db \<Rightarrow> db" where
  "clearMisconfiguredEcus d = d\<lparr>db_misconfigured_ecus := []\<rparr>"

section \<open>Installed versions\<close>

datatype update_mode = kNone | kCurrent | kPending

text \<open>\<open>uint64_t\<close> to \<open>int64_t\<close> and back.\<close>

definition int64_of_uint64 :: "nat \<Rightarrow> int" where
  "int64_of_uint64 n = (if n < 2 ^ 63 then int n else int n - 2 ^ 64)"

definition uint64_of_int64 :: "int \<Rightarrow> nat" where
  "uint64_of_int64 i = nat (i mod 2 ^ 64)"

definition real_serial :: "db \<Rightarrow> string \<Rightarrow> string" where
  "real_serial d ecu_serial =
     (if ecu_serial = ''''
      then (case find es_is_primary (db_ecu_serials d) of None \<Rightarrow> '''' | Some r \<Rightarrow> es_serial r)
      else c_str ecu_serial)"

text \<open>The row that \<open>saveInstalledVersion\<close> writes, and what it makes of an existing row.\<close>

definition new_row :: "db \<Rightarrow> string \<Rightarrow> target \<Rightarrow> update_mode \<Rightarrow> installed_row" where
  "new_row d ecu_serial t mode =
     \<lparr>iv_ecu_serial = real_serial d ecu_serial, iv_sha256 = c_str (Target_sha256Hash t),
      iv_name = c_str (t_filename t), iv_hashes = c_str (encodeVector (t_hashes t)),
      iv_length = int64_of_uint64 (t_length t), iv_correlation_id = c_str (t_correlation_id t),
      iv_is_current = (mode = kCurrent), iv_is_pending = (mode = kPending)\<rparr>"

definition unset_row :: "string \<Rightarrow> update_mode \<Rightarrow> installed_row \<Rightarrow> installed_row" where
  "unset_row serial mode r =
     (if iv_ecu_serial r \<noteq> serial then r
      else case mode of
             kCurrent \<Rightarrow> r\<lparr>iv_is_current := False, iv_is_pending := False\<rparr>
           | kPending \<Rightarrow> r\<lparr>iv_is_pending := False\<rparr>
           | kNone \<Rightarrow> r)"

definition saveInstalledVersion :: "db \<Rightarrow> string \<Rightarrow> target \<Rightarrow> update_mode \<Rightarrow> db" where
  "saveInstalledVersion d ecu_serial t mode =
     (let unset = map (unset_row (real_serial d ecu_serial) mode) (db_installed_versions d);
          row = new_row d ecu_serial t mode
      in d\<lparr>db_installed_versions := filter (\<lambda>r. iv_key r \<noteq> iv_key row) unset @ [row]\<rparr>)"

definition target_of_row :: "installed_row \<Rightarrow> target" where
  "target_of_row r =
     (let hashes = decodeVector (iv_hashes r);
          hashes' = (if find (\<lambda>h. h_type h = kSha256) hashes = None
                     then hashes @ [Hash_of_type kSha256 (iv_sha256 r)] else hashes)
      in Target_internal (iv_name r) hashes' (uint64_of_int64 (iv_length r)) (iv_correlation_id r))"

text \<open>The index of the last row that satisfies a predicate; \<open>None\<close> is \<open>SIZE_MAX\<close>.\<close>

fun last_index :: "('a \<Rightarrow> bool) \<Rightarrow> nat \<Rightarrow> 'a list \<Rightarrow> nat option" where
  "last_index p i [] = None"
| "last_index p i (x # xs) =
     (case last_index p (i + 1) xs of
        Some j \<Rightarrow> Some j
      | None \<Rightarrow> if p x then Some i else None)"

text \<open>
  The order in which the unordered query returns its rows is the parameter \<open>sql_order\<close>, documented to
  be some permutation.
\<close>

definition loadInstalledVersions ::
  "(installed_row list \<Rightarrow> installed_row list) \<Rightarrow> db \<Rightarrow> string \<Rightarrow> target list \<times> nat option \<times> nat option" where
  "loadInstalledVersions sql_order d ecu_serial =
     (let serial = real_serial d ecu_serial;
          rows = sql_order (filter (\<lambda>r. iv_ecu_serial r = serial) (db_installed_versions d))
      in (map target_of_row rows, last_index iv_is_current 0 rows, last_index iv_is_pending 0 rows))"

definition hasPendingInstall :: "db \<Rightarrow> bool" where
  "hasPendingInstall d \<longleftrightarrow> length (filter iv_is_pending (db_installed_versions d)) > 0"

definition clearInstalledVersions :: "db \<Rightarrow> db" where
  "clearInstalledVersions d = d\<lparr>db_installed_versions := []\<rparr>"

section \<open>Installation result\<close>

definition storeInstallationResult :: "db \<Rightarrow> operation_result \<Rightarrow> db" where
  "storeInstallationResult d r =
     d\<lparr>db_installation_result := Some (r\<lparr>or_id := c_str (or_id r), or_result_text := c_str (or_result_text r)\<rparr>)\<rparr>"

definition loadInstallationResult :: "db \<Rightarrow> operation_result option" where
  "loadInstallationResult d = db_installation_result d"

definition clearInstallationResult :: "db \<Rightarrow> db" where
  "clearInstallationResult d = d\<lparr>db_installation_result := None\<rparr>"

section \<open>The contract of the metadata store\<close>

text \<open>
  What the update client relies on: a stored root is found under its version and, when no later
  root is stored, as the latest one; metadata of the other roles is found under its role; and an
  operation on one repository, role or version leaves the others alone.
\<close>

locale metadata_store =
  fixes store_root :: "'d \<Rightarrow> string \<Rightarrow> repository_type \<Rightarrow> int \<Rightarrow> 'd"
    and load_root :: "'d \<Rightarrow> repository_type \<Rightarrow> int \<Rightarrow> string option"
    and store_other :: "'d \<Rightarrow> string \<Rightarrow> repository_type \<Rightarrow> role \<Rightarrow> 'd"
    and load_other :: "'d \<Rightarrow> repository_type \<Rightarrow> role \<Rightarrow> string option"
    and clear_other :: "'d \<Rightarrow> repository_type \<Rightarrow> 'd"
  assumes load_store_root:
      "0 \<le> v' \<Longrightarrow> load_root (store_root d data repo v) repo' v' =
         (if repo' = repo \<and> v' = v then Some (c_str data) else load_root d repo' v')"
    and load_latest_root:
      "(\<And>v'. v < v' \<Longrightarrow> load_root d repo v' = None) \<Longrightarrow> 0 \<le> v \<Longrightarrow>
         load_root (store_root d data repo v) repo (-1) = Some (c_str data)"
    and load_latest_root_other:
      "repo' \<noteq> repo \<Longrightarrow> load_root (store_root d data repo v) repo' (-1) = load_root d repo' (-1)"
    and load_root_store_other:
      "role \<noteq> kRoot \<Longrightarrow> load_root (store_other d data repo role) repo' v' = load_root d repo' v'"
    and load_store_other:
      "load_other (store_other d data repo role) repo' role' =
         (if repo' = repo \<and> role' = role then Some (c_str data) else load_other d repo' role')"
    and load_other_store_root:
      "role \<noteq> kRoot \<Longrightarrow> load_other (store_root d data repo v) repo' role = load_other d repo' role"
    and load_clear_other:
      "role \<noteq> kRoot \<Longrightarrow> load_other (clear_other d repo) repo' role =
         (if repo' = repo then None else load_other d repo' role)"
    and load_root_clear_other: "load_root (clear_other d repo) repo' v' = load_root d repo' v'"
begin

text \<open>Storing a chain of roots under consecutive versions, as the client does when it rotates them.\<close>

fun store_chain :: "'d \<Rightarrow> repository_type \<Rightarrow> int \<Rightarrow> string list \<Rightarrow> 'd" where
  "store_chain d repo v [] = d"
| "store_chain d repo v (data # datas) = store_chain (store_root d data repo v) repo (v + 1) datas"

lemma store_chain_snoc:
  "store_chain d repo v (datas @ [data]) =
     store_root (store_chain d repo v datas) data repo (v + int (length datas))"
  by (induction datas arbitrary: d v) (simp_all add: algebra_simps)

lemma store_chain_load:
  assumes "0 \<le> v" and "0 \<le> v'"
  shows "load_root (store_chain d repo v datas) repo' v' =
    (if repo' = repo \<and> v \<le> v' \<and> v' < v + int (length datas)
     then Some (c_str (datas ! nat (v' - v))) else load_root d repo' v')"
proof (induction datas rule: rev_induct)
  case (snoc data datas)
  show ?case
  proof (cases "repo' = repo \<and> v' = v + int (length datas)")
    case True
    then show ?thesis using assms by (simp add: store_chain_snoc load_store_root)
  next
    case False
    then have "load_root (store_chain d repo v (datas @ [data])) repo' v' =
        load_root (store_chain d repo v datas) repo' v'"
      using assms by (auto simp: store_chain_snoc load_store_root)
    with False snoc assms show ?thesis
      by (auto simp: nth_append nat_less_iff)
  qed
qed auto

lemma store_chain_latest:
  assumes "0 \<le> v" and "datas \<noteq> []" and "\<And>v'. v \<le> v' \<Longrightarrow> load_root d repo v' = None"
  shows "load_root (store_chain d repo v datas) repo (-1) = Some (c_str (last datas))"
proof -
  from assms(2) obtain ds data where datas: "datas = ds @ [data]" by (cases datas rule: rev_cases) auto
  have "load_root (store_chain d repo v ds) repo v' = None" if "v + int (length ds) < v'" for v'
    using that assms(1,3) by (simp add: store_chain_load)
  then show ?thesis
    using load_latest_root [of "v + int (length ds)" "store_chain d repo v ds" repo data] assms(1)
    by (simp add: datas store_chain_snoc)
qed

end

section \<open>The database keeps the contract\<close>

lemma select_meta_simps:
  "select_meta (storeRoot d data repo v) repo' role =
     filter (\<lambda>r. \<not> (repo' = repo \<and> role = kRoot \<and> mr_version r = v)) (select_meta d repo' role) @
     (if repo' = repo \<and> role = kRoot
      then [\<lparr>mr_meta = data, mr_repo = repo, mr_type = kRoot, mr_version = v\<rparr>] else [])"
  "select_meta (storeNonRoot d data repo role0) repo' role =
     (if repo' = repo \<and> role = role0
      then [\<lparr>mr_meta = data, mr_repo = repo, mr_type = role0, mr_version = ANY_VERSION\<rparr>]
      else select_meta d repo' role)"
  "select_meta (clearNonRootMeta d repo) repo' role =
     (if repo' = repo \<and> role \<noteq> kRoot then [] else select_meta d repo' role)"
  by (auto simp: select_meta_def storeRoot_def storeNonRoot_def clearNonRootMeta_def Let_def
      filter_empty_conv intro!: filter_cong)

lemma find_filter_append:
  "find p (xs @ ys) = (case find p xs of None \<Rightarrow> find p ys | Some x \<Rightarrow> Some x)"
  by (induction xs) auto

lemma find_version_filter:
  "find (\<lambda>r. mr_version r = v') (filter (\<lambda>r. mr_version r \<noteq> v) rs) =
     (if v' = v then None else find (\<lambda>r. mr_version r = v') rs)"
  by (induction rs) auto

lemma select_latest_snoc_max:
  assumes "\<forall>r \<in> set rs. mr_version r < mr_version x"
  shows "select_latest (rs @ [x]) = Some x"
  using assms by (induction rs) auto

lemma storeRoot_load:
  assumes "0 \<le> v'"
  shows "loadRoot (storeRoot d data repo v) repo' v' =
    (if repo' = repo \<and> v' = v then Some (c_str data) else loadRoot d repo' v')"
  using assms
  by (simp add: loadRoot_def select_meta_simps find_filter_append find_version_filter
      split: option.splits)

lemma storeRoot_latest:
  assumes "\<And>v'. v < v' \<Longrightarrow> loadRoot d repo v' = None" and "0 \<le> v"
  shows "loadRoot (storeRoot d data repo v) repo (-1) = Some (c_str data)"
proof -
  have "mr_version r < v" if r: "r \<in> set (select_meta d repo kRoot)" "mr_version r \<noteq> v" for r
  proof (rule ccontr)
    assume "\<not> mr_version r < v"
    with r(2) have "v < mr_version r" by simp
    from assms(1) [OF this] assms(2) this
    have "find (\<lambda>q. mr_version q = mr_version r) (select_meta d repo kRoot) = None"
      by (simp add: loadRoot_def)
    with r(1) show False by (auto simp: find_None_iff)
  qed
  then show ?thesis
    by (simp add: loadRoot_def select_meta_simps select_latest_snoc_max)
qed

interpretation sql: metadata_store storeRoot loadRoot storeNonRoot loadNonRoot clearNonRootMeta
proof unfold_locales
  show "loadRoot (storeRoot d data repo v) repo (-1) = Some (c_str data)"
    if "\<And>v'. v < v' \<Longrightarrow> loadRoot d repo v' = None" "0 \<le> v" for v d repo data
    using that by (rule storeRoot_latest)
  show "loadRoot (storeRoot d data repo v) repo' v' =
      (if repo' = repo \<and> v' = v then Some (c_str data) else loadRoot d repo' v')"
    if "0 \<le> v'" for v' d data repo v repo'
    using that by (rule storeRoot_load)
qed (simp_all add: loadRoot_def loadNonRoot_def select_meta_simps)

section \<open>Facts about installed versions\<close>

text \<open>The invariant of the table: the \<open>UNIQUE\<close> constraint, and one current and one pending row per ECU.\<close>

definition one_per_ecu :: "(installed_row \<Rightarrow> bool) \<Rightarrow> installed_row list \<Rightarrow> bool" where
  "one_per_ecu p rows \<longleftrightarrow> distinct (map iv_ecu_serial (filter p rows))"

definition installed_wf :: "db \<Rightarrow> bool" where
  "installed_wf d \<longleftrightarrow>
     distinct (map iv_key (db_installed_versions d)) \<and>
     one_per_ecu iv_is_current (db_installed_versions d) \<and>
     one_per_ecu iv_is_pending (db_installed_versions d)"

lemma saveInstalledVersion_rows:
  "db_installed_versions (saveInstalledVersion d ecu_serial t mode) =
     filter (\<lambda>r. iv_key r \<noteq> iv_key (new_row d ecu_serial t mode))
       (map (unset_row (real_serial d ecu_serial) mode) (db_installed_versions d)) @
     [new_row d ecu_serial t mode]"
  by (simp add: saveInstalledVersion_def Let_def)

lemma unset_row_key [simp]: "iv_key (unset_row s mode r) = iv_key r" "iv_ecu_serial (unset_row s mode r) = iv_ecu_serial r"
  by (auto simp: unset_row_def iv_key_def split: update_mode.splits)

lemma unset_row_flags:
  "iv_is_current (unset_row s mode r) \<Longrightarrow> iv_is_current r \<and> (mode = kCurrent \<longrightarrow> iv_ecu_serial r \<noteq> s)"
  "iv_is_pending (unset_row s mode r) \<Longrightarrow> iv_is_pending r \<and> (mode \<noteq> kNone \<longrightarrow> iv_ecu_serial r \<noteq> s)"
  by (auto simp: unset_row_def split: if_splits update_mode.splits)

lemma one_per_ecu_filter: "one_per_ecu p rows \<Longrightarrow> one_per_ecu p (filter q rows)"
  by (induction rows) (auto simp: one_per_ecu_def)

lemma one_per_ecu_map:
  assumes "one_per_ecu p rows" and "\<And>r. iv_ecu_serial (f r) = iv_ecu_serial r" and "\<And>r. p (f r) \<Longrightarrow> p r"
  shows "one_per_ecu p (map f rows)"
  using assms(1)
proof (induction rows)
  case (Cons r rows)
  then show ?case
    using assms(2,3) by (fastforce simp: one_per_ecu_def split: if_splits)
qed (simp add: one_per_ecu_def)

lemma one_per_ecu_snoc:
  assumes "one_per_ecu p rows" and "p r \<Longrightarrow> \<forall>q \<in> set rows. p q \<longrightarrow> iv_ecu_serial q \<noteq> iv_ecu_serial r"
  shows "one_per_ecu p (rows @ [r])"
  using assms by (auto simp: one_per_ecu_def)

lemma saveInstalledVersion_wf_lemma:
  assumes "installed_wf d"
  shows "installed_wf (saveInstalledVersion d ecu_serial t mode)"
proof -
  let ?s = "real_serial d ecu_serial" and ?new = "new_row d ecu_serial t mode"
  let ?unset = "map (unset_row ?s mode) (db_installed_versions d)"
  let ?kept = "filter (\<lambda>r. iv_key r \<noteq> iv_key ?new) ?unset"
  have keys: "map iv_key ?unset = map iv_key (db_installed_versions d)" by simp
  have "distinct (map iv_key ?unset)"
    unfolding keys using assms by (simp add: installed_wf_def)
  then have "distinct (map iv_key ?kept)" by (rule distinct_map_filter)
  then have "distinct (map iv_key (?kept @ [?new]))" by auto
  moreover have "one_per_ecu iv_is_current (?kept @ [?new])"
    using assms
    by (intro one_per_ecu_snoc one_per_ecu_filter one_per_ecu_map)
      (auto simp: installed_wf_def new_row_def dest: unset_row_flags)
  moreover have "one_per_ecu iv_is_pending (?kept @ [?new])"
    using assms
    by (intro one_per_ecu_snoc one_per_ecu_filter one_per_ecu_map)
      (auto simp: installed_wf_def new_row_def dest: unset_row_flags)
  ultimately show ?thesis by (simp add: installed_wf_def saveInstalledVersion_rows)
qed

lemma last_index_Some:
  "last_index p i xs = Some j \<Longrightarrow> i \<le> j \<and> j < i + length xs \<and> p (xs ! (j - i))"
proof (induction xs arbitrary: i)
  case (Cons x xs)
  then show ?case
    by (cases "last_index p (i + 1) xs") (fastforce simp: nth_Cons' split: if_splits)+
qed simp

lemma last_index_None_iff: "last_index p i xs = None \<longleftrightarrow> (\<forall>x \<in> set xs. \<not> p x)"
proof (induction xs arbitrary: i)
  case (Cons x xs)
  from Cons.IH [of "i + 1"] show ?case by (cases "last_index p (i + 1) xs") auto
qed simp

lemma int64_round_trip: "n < 2 ^ 64 \<Longrightarrow> uint64_of_int64 (int64_of_uint64 n) = n"
  by (auto simp: uint64_of_int64_def int64_of_uint64_def zmod_trivial_iff nat_eq_iff)

lemma sort_hashes_sorted: "sorted (map (\<lambda>h. hash_priority (h_type h)) hs) \<Longrightarrow> sort_hashes hs = hs"
  by (simp add: sort_hashes_def sorted_sort_id sort_key_id_if_sorted)

text \<open>A target that can be stored without loss: its texts hold no NUL and its hashes no separator.\<close>

definition storable :: "target \<Rightarrow> bool" where
  "storable t \<longleftrightarrow>
     Target_wf t \<and> t_length t < 2 ^ 64 \<and> CHR 0x00 \<notin> set (t_filename t) \<and> CHR 0x00 \<notin> set (t_correlation_id t) \<and>
     (\<exists>h \<in> set (t_hashes t). h_type h = kSha256) \<and>
     (\<forall>h \<in> set (t_hashes t). h_value h \<noteq> [] \<and> CHR '';'' \<notin> set (h_value h) \<and> CHR 0x00 \<notin> set (h_value h))"

lemma encodeVector_no_NUL:
  "\<forall>h \<in> set hs. CHR 0x00 \<notin> set (h_value h) \<Longrightarrow> CHR 0x00 \<notin> set (encodeVector hs)"
proof (induction hs)
  case (Cons h hs)
  have "CHR 0x00 \<notin> set (Hash_TypeString h)"
    by (cases "h_type h") (simp_all add: Hash_TypeString_def)
  with Cons show ?case by (auto simp: encodeVector_Cons)
qed simp

lemma target_of_new_row:
  assumes "storable t"
  shows "target_of_row (new_row d ecu_serial t mode) =
    Target_internal (t_filename t) (t_hashes t) (t_length t) (t_correlation_id t)"
proof -
  have "\<forall>h \<in> set (t_hashes t). Hash_wf h \<and> CHR '';'' \<notin> set (h_value h)"
    and keep: "filter (\<lambda>h. HaveAlgorithm h \<and> h_value h \<noteq> []) (t_hashes t) = t_hashes t"
    using assms by (auto simp: storable_def Target_wf_def intro: filter_True)
  from decodeVector_encodeVector_filter [OF this(1)] keep
  have "decodeVector (encodeVector (t_hashes t)) = t_hashes t" by simp
  moreover have "find (\<lambda>h. h_type h = kSha256) (t_hashes t) \<noteq> None"
    using assms unfolding storable_def find_None_iff by blast
  moreover have "CHR 0x00 \<notin> set (encodeVector (t_hashes t))"
    using assms by (intro encodeVector_no_NUL) (simp add: storable_def)
  ultimately show ?thesis
    using assms
    by (auto simp: target_of_row_def new_row_def Let_def c_str_id storable_def int64_round_trip)
qed

lemma loadInstalledVersions_current:
  assumes perm: "\<And>rows. mset (sql_order rows) = mset rows" and wf: "installed_wf d"
    and row: "row \<in> set (db_installed_versions d)" "iv_is_current row" "iv_ecu_serial row = real_serial d ecu_serial"
  shows "\<exists>i < length (fst (loadInstalledVersions sql_order d ecu_serial)).
    fst (snd (loadInstalledVersions sql_order d ecu_serial)) = Some i \<and>
    fst (loadInstalledVersions sql_order d ecu_serial) ! i = target_of_row row"
proof -
  let ?s = "real_serial d ecu_serial"
  let ?sel = "filter (\<lambda>r. iv_ecu_serial r = ?s) (db_installed_versions d)"
  let ?rows = "sql_order ?sel"
  have set_rows: "set ?rows = set ?sel" using perm by (metis set_mset_mset)
  have "last_index iv_is_current 0 ?rows \<noteq> None"
    using row by (auto simp: last_index_None_iff set_rows)
  then obtain i where i: "last_index iv_is_current 0 ?rows = Some i" by auto
  from last_index_Some [OF i] have "i < length ?rows" "iv_is_current (?rows ! i)" by simp_all
  then have "?rows ! i \<in> set (filter iv_is_current (db_installed_versions d))" "iv_ecu_serial (?rows ! i) = ?s"
    using nth_mem [of i ?rows] set_rows by auto
  moreover have "row \<in> set (filter iv_is_current (db_installed_versions d))" using row by simp
  moreover have "inj_on iv_ecu_serial (set (filter iv_is_current (db_installed_versions d)))"
    using wf by (simp add: installed_wf_def one_per_ecu_def distinct_map)
  ultimately have "?rows ! i = row" using row(3) by (metis inj_onD)
  then show ?thesis
    using i \<open>i < length ?rows\<close> by (auto simp: loadInstalledVersions_def Let_def)
qed

section \<open>Properties of the storage\<close>


definition empty_db :: db where
  "empty_db =
     \<lparr>db_meta = [], db_device_info = None, db_need_reboot = None, db_ecu_serials = [],
      db_misconfigured_ecus = [], db_installed_versions = [], db_installation_result = None\<rparr>"

lemma loadRoot_empty [simp]: "loadRoot empty_db repo v = None"
  by (simp add: loadRoot_def select_meta_def empty_db_def)



definition sample_stored_target :: target where
  "sample_stored_target = Target_internal ''fw'' [Hash_of_type kSha256 ''12''] 3 ''corr''"


text \<open>
  C13. Saving a version in any mode keeps the table's invariant: no two rows share ECU, digest and
  name, and an ECU has at most one current and at most one pending version.
\<close>

theorem saveInstalledVersion_keeps_invariant:
  assumes "installed_wf d"
  shows "installed_wf (saveInstalledVersion d ecu_serial t mode)"
  by (rule saveInstalledVersion_wf_lemma [OF assms])

theorem saveInstalledVersion_keeps_invariant_witness:
  "installed_wf (saveInstalledVersion empty_db ''ecu1'' sample_stored_target kPending)"
  by (rule saveInstalledVersion_keeps_invariant)
    (simp add: installed_wf_def empty_db_def one_per_ecu_def)

end
