(* ===== verification/State_Exn.thy ===== *)
theory State_Exn
  imports Json_Value
begin

text \<open>
  Code that changes an object and may throw: a function of the state that returns the result, or the
  exception that leaves it, with the new state.  State changes made before a throw remain.
\<close>

type_synonym ('s, 'a) sx = "'s \<Rightarrow> (exn, 'a) result \<times> 's"

definition retS :: "'a \<Rightarrow> ('s, 'a) sx" where
  "retS v s = (Inr v, s)"

definition bindS :: "('s, 'a) sx \<Rightarrow> ('a \<Rightarrow> ('s, 'b) sx) \<Rightarrow> ('s, 'b) sx" where
  "bindS m f s = (case m s of (Inl e, s') \<Rightarrow> (Inl e, s') | (Inr v, s') \<Rightarrow> f v s')"

definition getS :: "('s \<Rightarrow> 'a) \<Rightarrow> ('s, 'a) sx" where
  "getS f s = (Inr (f s), s)"

definition modS :: "('s \<Rightarrow> 's) \<Rightarrow> ('s, unit) sx" where
  "modS f s = (Inr (), f s)"

definition liftS :: "(exn, 'a) result \<Rightarrow> ('s, 'a) sx" where
  "liftS r s = (r, s)"

text \<open>\<open>if (!m()) { h(); return false; } k()\<close>\<close>

definition checkS :: "('s, bool) sx \<Rightarrow> ('s, unit) sx \<Rightarrow> ('s, bool) sx \<Rightarrow> ('s, bool) sx" where
  "checkS m h k = bindS m (\<lambda>ok. if ok then k else bindS h (\<lambda>_. retS False))"

definition skipS :: "('s, unit) sx" where
  "skipS = retS ()"

text \<open>\<open>for (x : xs) { if (!f(x)) return false; }\<close> followed by \<open>return true\<close>.\<close>

primrec allS :: "('a \<Rightarrow> ('s, bool) sx) \<Rightarrow> 'a list \<Rightarrow> ('s, bool) sx" where
  "allS f [] = retS True"
| "allS f (x # xs) = checkS (f x) skipS (allS f xs)"

lemma bindS_eq:
  "bindS m f s = (Inr v, s') \<longleftrightarrow> (\<exists>w s1. m s = (Inr w, s1) \<and> f w s1 = (Inr v, s'))"
  by (auto simp: bindS_def split: prod.splits sum.splits)

lemma retS_eq [result_simps]: "retS v s = (r, s') \<longleftrightarrow> r = Inr v \<and> s' = s"
  by (auto simp: retS_def)

lemma getS_eq [result_simps]: "getS f s = (r, s') \<longleftrightarrow> r = Inr (f s) \<and> s' = s"
  by (auto simp: getS_def)

lemma modS_eq [result_simps]: "modS f s = (r, s') \<longleftrightarrow> r = Inr () \<and> s' = f s"
  by (auto simp: modS_def)

lemma liftS_eq [result_simps]: "liftS x s = (r, s') \<longleftrightarrow> r = x \<and> s' = s"
  by (auto simp: liftS_def)

lemma skipS_eq [result_simps]: "skipS s = (r, s') \<longleftrightarrow> r = Inr () \<and> s' = s"
  by (auto simp: skipS_def retS_def)

lemma checkS_True:
  "checkS m h k s = (Inr True, s') \<longleftrightarrow> (\<exists>s1. m s = (Inr True, s1) \<and> k s1 = (Inr True, s'))"
  by (auto simp: checkS_def bindS_eq retS_eq split: if_splits)

text \<open>
  A relation between the state before and after that is reflexive and transitive holds for a
  composite when it holds for its parts, whatever their results.
\<close>

definition keepsS :: "('s \<Rightarrow> 's \<Rightarrow> bool) \<Rightarrow> ('s, 'a) sx \<Rightarrow> bool" where
  "keepsS R m \<longleftrightarrow> (\<forall>s. R s (snd (m s)))"

lemma keepsS_bindS:
  assumes "transp R" and "keepsS R m" and "\<And>v. keepsS R (f v)"
  shows "keepsS R (bindS m f)"
  unfolding keepsS_def
proof
  fix s
  obtain r s1 where m: "m s = (r, s1)" by (cases "m s")
  then have 1: "R s s1" using assms(2) by (metis keepsS_def snd_conv)
  show "R s (snd (bindS m f s))"
  proof (cases r)
    case (Inr v)
    have "R s1 (snd (f v s1))" using assms(3) by (simp add: keepsS_def)
    with 1 show ?thesis using assms(1) by (simp add: bindS_def m Inr) (meson transpD)
  qed (simp add: bindS_def m 1)
qed

lemma keepsS_simple:
  assumes "reflp R"
  shows "keepsS R (retS v)" "keepsS R (getS g)" "keepsS R (liftS r)" "keepsS R skipS"
  using assms by (auto simp: keepsS_def retS_def getS_def liftS_def skipS_def reflp_def)

lemma keepsS_checkS:
  assumes "transp R" "reflp R" "keepsS R m" "keepsS R h" "keepsS R k"
  shows "keepsS R (checkS m h k)"
  unfolding checkS_def
  by (intro keepsS_bindS) (auto intro!: keepsS_bindS keepsS_simple assms)

lemma keepsS_allS:
  assumes "transp R" "reflp R" "\<And>x. x \<in> set xs \<Longrightarrow> keepsS R (f x)"
  shows "keepsS R (allS f xs)"
  using assms(3)
  by (induction xs) (auto intro!: keepsS_checkS keepsS_simple assms(1,2))

lemma keepsS_If: "keepsS R a \<Longrightarrow> keepsS R b \<Longrightarrow> keepsS R (if p then a else b)"
  by simp

end
