(* ===== verification/Uptane_Client.thy ===== *)
theory Uptane_Client
  imports Repository Sql_Storage State_Exn
begin

text \<open>
  The metadata cycle of the primary client (\<open>primary/sotauptaneclient.cc\<close>): \<open>updateDirectorMeta\<close>,
  \<open>updateImagesMeta\<close>, the offline checks, \<open>getNewTargets\<close> and the two iterations.  The network and the
  clock are parameters that may answer differently at every call: each use advances a counter
  in the state, which the answer may depend on.
\<close>

section \<open>State and environment\<close>

record client =
  cl_db :: db
  cl_director :: director_repository
  cl_images :: images_repository
  cl_hw_ids :: "(string \<times> string) list"
  cl_last_exception :: exn
  cl_tick :: nat

record env =
  env_crypto :: crypto
  http_get :: "nat \<Rightarrow> string \<Rightarrow> int \<Rightarrow> string option"
  TimeStamp_Now :: "nat \<Rightarrow> string"
  director_server :: string
  repo_server :: string
  env_sql_order :: "installed_row list \<Rightarrow> installed_row list"

definition kMaxRootSize :: int where "kMaxRootSize = 64 * 1024"
definition kMaxDirectorTargetsSize :: int where "kMaxDirectorTargetsSize = 64 * 1024"
definition kMaxTimestampSize :: int where "kMaxTimestampSize = 64 * 1024"
definition kMaxSnapshotSize :: int where "kMaxSnapshotSize = 64 * 1024"
definition kMaxImagesTargetsSize :: int where "kMaxImagesTargetsSize = 1024 * 1024"

definition fetchRole :: "env \<Rightarrow> int \<Rightarrow> repository_type \<Rightarrow> role \<Rightarrow> int \<Rightarrow> (client, string option) sx" where
  "fetchRole e maxsize repo role version =
     bindS (getS cl_tick) (\<lambda>n.
     bindS (modS (\<lambda>s. s\<lparr>cl_tick := n + 1\<rparr>)) (\<lambda>_.
     let base_url = (if repo = kDirector then director_server e else repo_server e)
     in retS (http_get e n (base_url @ ''/'' @ Version_RoleFileName version role) maxsize)))"

definition fetchLatestRole :: "env \<Rightarrow> int \<Rightarrow> repository_type \<Rightarrow> role \<Rightarrow> (client, string option) sx" where
  "fetchLatestRole e maxsize repo role = fetchRole e maxsize repo role ANY_VERSION"

definition clock :: "env \<Rightarrow> (client, string) sx" where
  "clock e =
     bindS (getS cl_tick) (\<lambda>n.
     bindS (modS (\<lambda>s. s\<lparr>cl_tick := n + 1\<rparr>)) (\<lambda>_.
     retS (TimeStamp_Now e n)))"

definition on_director :: "(director_repository, 'a) sx \<Rightarrow> (client, 'a) sx" where
  "on_director m s = (case m (cl_director s) of (r, d) \<Rightarrow> (r, s\<lparr>cl_director := d\<rparr>))"

definition on_images :: "(images_repository, 'a) sx \<Rightarrow> (client, 'a) sx" where
  "on_images m s = (case m (cl_images s) of (r, d) \<Rightarrow> (r, s\<lparr>cl_images := d\<rparr>))"

definition on_db :: "(db \<Rightarrow> db) \<Rightarrow> (client, unit) sx" where
  "on_db f = modS (\<lambda>s. s\<lparr>cl_db := f (cl_db s)\<rparr>)"

definition set_exception :: "exn \<Rightarrow> (client, unit) sx" where
  "set_exception x = modS (\<lambda>s. s\<lparr>cl_last_exception := x\<rparr>)"

definition note_director :: "(client, unit) sx" where
  "note_director = modS (\<lambda>s. s\<lparr>cl_last_exception := d_last_exception (cl_director s)\<rparr>)"

definition note_images :: "(client, unit) sx" where
  "note_images = modS (\<lambda>s. s\<lparr>cl_last_exception := i_last_exception (cl_images s)\<rparr>)"

section \<open>The blocks of a metadata update\<close>

text \<open>
  Both updates are written as the same sequence of blocks over their repository object: load or fetch
  the initial root, follow the chain of newer roots, then fetch, verify and store one role after the
  other.  \<open>initRoot\<close>, \<open>verifyRoot\<close> and the verification methods come as arguments.
\<close>

definition initial_root ::
  "env \<Rightarrow> repository_type \<Rightarrow> (string \<Rightarrow> (client, bool) sx) \<Rightarrow> (client, unit) sx \<Rightarrow> (client, bool) sx" where
  "initial_root e repo init note =
     bindS (getS (\<lambda>s. loadRoot (cl_db s) repo ANY_VERSION)) (\<lambda>stored.
     case stored of
       Some root_raw \<Rightarrow> checkS (init root_raw) note (retS True)
     | None \<Rightarrow>
         bindS (fetchRole e kMaxRootSize repo kRoot 1) (\<lambda>fetched.
         case fetched of
           None \<Rightarrow> retS False
         | Some root_raw \<Rightarrow>
             checkS (init root_raw) note
               (bindS (on_db (\<lambda>d. storeRoot d root_raw repo 1)) (\<lambda>_. retS True))))"

definition rotate_root ::
  "env \<Rightarrow> repository_type \<Rightarrow> (string \<Rightarrow> (client, bool) sx) \<Rightarrow> (client, unit) sx \<Rightarrow> int \<Rightarrow> (client, bool) sx" where
  "rotate_root e repo verify note version =
     bindS (fetchRole e kMaxRootSize repo kRoot version) (\<lambda>fetched.
     case fetched of
       None \<Rightarrow> retS False
     | Some root_raw \<Rightarrow>
         checkS (verify root_raw) note
           (bindS (on_db (\<lambda>d. storeRoot d root_raw repo version)) (\<lambda>_.
            bindS (on_db (\<lambda>d. clearNonRootMeta d repo)) (\<lambda>_.
            retS True))))"

definition fail_if_expired :: "env \<Rightarrow> (client \<Rightarrow> string \<Rightarrow> bool) \<Rightarrow> exn \<Rightarrow> (client, bool) sx" where
  "fail_if_expired e expired x =
     bindS (clock e) (\<lambda>now.
     bindS (getS (\<lambda>s. expired s now)) (\<lambda>b.
     if b then bindS (set_exception x) (\<lambda>_. retS False) else retS True))"

definition update_root ::
  "env \<Rightarrow> repository_type \<Rightarrow> (string \<Rightarrow> (client, bool) sx) \<Rightarrow> (client, unit) sx \<Rightarrow>
   (client \<Rightarrow> int) \<Rightarrow> (client \<Rightarrow> string \<Rightarrow> bool) \<Rightarrow> exn \<Rightarrow> (client, bool) sx" where
  "update_root e repo verify note version_of expired x =
     bindS (fetchLatestRole e kMaxRootSize repo kRoot) (\<lambda>fetched.
     case fetched of
       None \<Rightarrow> retS False
     | Some root_raw \<Rightarrow>
         bindS (liftS (extractVersionUntrusted (env_crypto e) root_raw)) (\<lambda>remote_version.
         bindS (getS version_of) (\<lambda>local_version.
         checkS (allS (rotate_root e repo verify note) [local_version + 1 .. remote_version]) skipS
           (fail_if_expired e expired x))))"

definition stored_version :: "env \<Rightarrow> repository_type \<Rightarrow> role \<Rightarrow> db \<Rightarrow> (exn, int) result" where
  "stored_version e repo role d =
     (case loadNonRoot d repo role of
        Some raw \<Rightarrow> extractVersionUntrusted (env_crypto e) raw
      | None \<Rightarrow> Inr (-1))"

definition update_role ::
  "env \<Rightarrow> repository_type \<Rightarrow> role \<Rightarrow> (client \<Rightarrow> int) \<Rightarrow> (string \<Rightarrow> (client, bool) sx) \<Rightarrow> (client, unit) sx \<Rightarrow>
   (client \<Rightarrow> string \<Rightarrow> bool) \<Rightarrow> exn \<Rightarrow> (client, bool) sx" where
  "update_role e repo role maxsize verify note expired x =
     bindS (getS maxsize) (\<lambda>size.
     bindS (fetchLatestRole e size repo role) (\<lambda>fetched.
     case fetched of
       None \<Rightarrow> retS False
     | Some raw \<Rightarrow>
         bindS (liftS (extractVersionUntrusted (env_crypto e) raw)) (\<lambda>remote_version.
         bindS (bindS (getS cl_db) (\<lambda>d. liftS (stored_version e repo role d))) (\<lambda>local_version.
         checkS (verify raw) note
           (if local_version > remote_version then retS False
            else bindS (if local_version < remote_version then on_db (\<lambda>d. storeNonRoot d raw repo role)
                        else skipS) (\<lambda>_.
                 fail_if_expired e expired x))))))"

section \<open>Updates\<close>

definition updateDirectorMeta :: "env \<Rightarrow> (client, bool) sx" where
  "updateDirectorMeta e =
     (let c = env_crypto e
      in bindS (modS (\<lambda>s. s\<lparr>cl_director := Director_resetMeta (cl_director s)\<rparr>)) (\<lambda>_.
         checkS (initial_root e kDirector (\<lambda>raw. on_director (\<lambda>d. initRoot c d raw)) note_director) skipS
        (checkS (update_root e kDirector (\<lambda>raw. on_director (\<lambda>d. verifyRoot c d raw)) note_director
                   (\<lambda>s. rootVersion (cl_director s)) (\<lambda>s now. rootExpired (cl_director s) now)
                   (ExpiredMetadata ''director'' ''root'')) skipS
        (update_role e kDirector kTargets (\<lambda>_. kMaxDirectorTargetsSize)
           (\<lambda>raw. on_director (\<lambda>d. Director_verifyTargets c d raw)) note_director
           (\<lambda>s now. Director_targetsExpired (cl_director s) now)
           (ExpiredMetadata ''director'' ''targets'')))))"

definition updateImagesMeta :: "env \<Rightarrow> (client, bool) sx" where
  "updateImagesMeta e =
     (let c = env_crypto e
      in bindS (modS (\<lambda>s. s\<lparr>cl_images := Images_resetMeta (cl_images s)\<rparr>)) (\<lambda>_.
         checkS (initial_root e kImage (\<lambda>raw. on_images (\<lambda>d. initRoot c d raw)) note_images) skipS
        (checkS (update_root e kImage (\<lambda>raw. on_images (\<lambda>d. verifyRoot c d raw)) note_images
                   (\<lambda>s. rootVersion (cl_images s)) (\<lambda>s now. rootExpired (cl_images s) now)
                   (ExpiredMetadata ''repo'' ''root'')) skipS
        (checkS (update_role e kImage kTimestamp (\<lambda>_. kMaxTimestampSize)
                   (\<lambda>raw. on_images (\<lambda>d. Images_verifyTimestamp c d raw)) note_images
                   (\<lambda>s now. Images_timestampExpired (cl_images s) now)
                   (ExpiredMetadata ''repo'' ''timestamp'')) skipS
        (checkS (update_role e kImage kSnapshot
                   (\<lambda>s. let n = snapshot_size (i_timestamp (cl_images s)) in if n > 0 then n else kMaxSnapshotSize)
                   (\<lambda>raw. on_images (\<lambda>d. Images_verifySnapshot c d raw)) note_images
                   (\<lambda>s now. Images_snapshotExpired (cl_images s) now)
                   (ExpiredMetadata ''repo'' ''snapshot'')) skipS
        (update_role e kImage kTargets
           (\<lambda>s. let n = targets_size (i_snapshot (cl_images s)) in if n > 0 then n else kMaxImagesTargetsSize)
           (\<lambda>raw. on_images (\<lambda>d. Images_verifyTargets c d raw)) note_images
           (\<lambda>s now. Images_targetsExpired (cl_images s) now)
           (ExpiredMetadata ''repo'' ''targets'')))))))"

section \<open>Offline checks\<close>

definition load_and_check ::
  "env \<Rightarrow> (db \<Rightarrow> string option) \<Rightarrow> (string \<Rightarrow> (client, bool) sx) \<Rightarrow> (client, unit) sx \<Rightarrow>
   (client \<Rightarrow> string \<Rightarrow> bool) \<Rightarrow> exn \<Rightarrow> (client, bool) sx" where
  "load_and_check e load verify note expired x =
     bindS (getS (\<lambda>s. load (cl_db s))) (\<lambda>stored.
     case stored of
       None \<Rightarrow> retS False
     | Some raw \<Rightarrow> checkS (verify raw) note (fail_if_expired e expired x))"

definition checkDirectorMetaOffline :: "env \<Rightarrow> (client, bool) sx" where
  "checkDirectorMetaOffline e =
     (let c = env_crypto e
      in bindS (modS (\<lambda>s. s\<lparr>cl_director := Director_resetMeta (cl_director s)\<rparr>)) (\<lambda>_.
         checkS (load_and_check e (\<lambda>d. loadRoot d kDirector ANY_VERSION)
                   (\<lambda>raw. on_director (\<lambda>d. initRoot c d raw)) note_director
                   (\<lambda>s now. rootExpired (cl_director s) now) (ExpiredMetadata ''director'' ''root'')) skipS
        (load_and_check e (\<lambda>d. loadNonRoot d kDirector kTargets)
           (\<lambda>raw. on_director (\<lambda>d. Director_verifyTargets c d raw)) note_director
           (\<lambda>s now. Director_targetsExpired (cl_director s) now) (ExpiredMetadata ''director'' ''targets''))))"

definition checkImagesMetaOffline :: "env \<Rightarrow> (client, bool) sx" where
  "checkImagesMetaOffline e =
     (let c = env_crypto e
      in bindS (modS (\<lambda>s. s\<lparr>cl_images := Images_resetMeta (cl_images s)\<rparr>)) (\<lambda>_.
         checkS (load_and_check e (\<lambda>d. loadRoot d kImage ANY_VERSION)
                   (\<lambda>raw. on_images (\<lambda>d. initRoot c d raw)) note_images
                   (\<lambda>s now. rootExpired (cl_images s) now) (ExpiredMetadata ''repo'' ''root'')) skipS
        (checkS (load_and_check e (\<lambda>d. loadNonRoot d kImage kTimestamp)
                   (\<lambda>raw. on_images (\<lambda>d. Images_verifyTimestamp c d raw)) note_images
                   (\<lambda>s now. Images_timestampExpired (cl_images s) now) (ExpiredMetadata ''repo'' ''timestamp'')) skipS
        (checkS (load_and_check e (\<lambda>d. loadNonRoot d kImage kSnapshot)
                   (\<lambda>raw. on_images (\<lambda>d. Images_verifySnapshot c d raw)) note_images
                   (\<lambda>s now. Images_snapshotExpired (cl_images s) now) (ExpiredMetadata ''repo'' ''snapshot'')) skipS
        (load_and_check e (\<lambda>d. loadNonRoot d kImage kTargets)
           (\<lambda>raw. on_images (\<lambda>d. Images_verifyTargets c d raw)) note_images
           (\<lambda>s now. Images_targetsExpired (cl_images s) now) (ExpiredMetadata ''repo'' ''targets''))))))"

section \<open>New targets\<close>

text \<open>
  The inner loop of \<open>getNewTargets\<close> over the ECUs of a target: \<open>Inl\<close> is the exception recorded before
  \<open>return false\<close>.  An ECU without a current version reads as version \<open>SIZE_MAX\<close>; the flag \<open>is_new\<close> is
  kept from one ECU of the target to the next.  Loading the installed versions never fails here, as
  every column it reads is \<open>NOT NULL\<close>.
\<close>

primrec scan_ecus ::
  "env \<Rightarrow> client \<Rightarrow> target \<Rightarrow> (string \<times> string) list \<Rightarrow> bool \<times> nat \<Rightarrow> (exn, bool \<times> nat) result" where
  "scan_ecus e s t [] st = Inr st"
| "scan_ecus e s t (ecu # ecus) st =
     (case (ecu, st) of ((ecu_serial, hw_id), (is_new, ecus_count)) \<Rightarrow>
        case map_of (cl_hw_ids s) ecu_serial of
          None \<Rightarrow> Inl (BadEcuId (t_filename t))
        | Some known \<Rightarrow>
            if known \<noteq> hw_id then Inl (BadHardwareId (t_filename t))
            else
              let (installed_versions, current_version, _) =
                    loadInstalledVersions (env_sql_order e) (cl_db s) ecu_serial;
                  new = (case current_version of
                           None \<Rightarrow> True
                         | Some i \<Rightarrow> if t_filename (installed_versions ! i) \<noteq> t_filename t then True else is_new)
              in scan_ecus e s t ecus (new, if new then ecus_count + 1 else ecus_count))"

primrec scan_targets ::
  "env \<Rightarrow> client \<Rightarrow> target list \<Rightarrow> target list \<times> nat \<Rightarrow> (exn, target list \<times> nat) result" where
  "scan_targets e s [] st = Inr st"
| "scan_targets e s (t # ts) st =
     (case st of (new_targets, ecus_count) \<Rightarrow>
        bindE (scan_ecus e s t (t_ecus t) (False, ecus_count)) (\<lambda>(is_new, ecus_count').
        scan_targets e s ts (if is_new then new_targets @ [t] else new_targets, ecus_count')))"

text \<open>\<open>None\<close> is the result false; the out-parameters are read only on true.\<close>

definition getNewTargets :: "env \<Rightarrow> (client, (target list \<times> nat) option) sx" where
  "getNewTargets e s =
     (case scan_targets e s (tgt_targets (d_targets (cl_director s))) ([], 0) of
        Inl x \<Rightarrow> (Inr None, s\<lparr>cl_last_exception := x\<rparr>)
      | Inr r \<Rightarrow> (Inr (Some r), s))"

definition uptaneIteration :: "env \<Rightarrow> (client, bool) sx" where
  "uptaneIteration e =
     checkS (updateDirectorMeta e) skipS
       (bindS (getNewTargets e) (\<lambda>r.
        case r of
          None \<Rightarrow> retS False
        | Some (targets, _) \<Rightarrow>
            if targets = [] then retS True
            else checkS (updateImagesMeta e) skipS (retS True)))"

definition uptaneOfflineIteration :: "env \<Rightarrow> (client, (target list \<times> nat) option) sx" where
  "uptaneOfflineIteration e =
     bindS (checkDirectorMetaOffline e) (\<lambda>ok.
     if \<not> ok then retS None
     else bindS (getNewTargets e) (\<lambda>r.
          case r of
            None \<Rightarrow> retS None
          | Some (targets, ecus) \<Rightarrow>
              if targets = [] then retS (Some ([], 0))
              else bindS (checkImagesMetaOffline e) (\<lambda>ok'.
                   if \<not> ok' then retS None else retS (Some (targets, ecus)))))"

datatype update_status = kUpdatesAvailable | kNoUpdatesAvailable | kError

text \<open>
  \<open>checkUpdates\<close>: the result that is default constructed has the status \<open>kNoUpdatesAvailable\<close> and
  no targets; the director targets that go with it come from storage.
\<close>

definition checkUpdates ::
  "env \<Rightarrow> (client, target list \<times> nat \<times> update_status \<times> json \<times> string) sx" where
  "checkUpdates e =
     bindS (getS (\<lambda>s. hasPendingInstall (cl_db s))) (\<lambda>pending.
     if pending then retS ([], 0, kNoUpdatesAvailable, JNull, '''')
     else bindS (uptaneOfflineIteration e) (\<lambda>r.
          case r of
            None \<Rightarrow> retS ([], 0, kError, JNull, ''Invalid UPTANE metadata in storage.'')
          | Some (updates, ecus_count) \<Rightarrow>
              bindS (getS (\<lambda>s. loadNonRoot (cl_db s) kDirector kTargets)) (\<lambda>stored.
              let director_targets = (case stored of None \<Rightarrow> '''' | Some raw \<Rightarrow> raw)
              in retS (updates, ecus_count,
                       if updates \<noteq> [] then kUpdatesAvailable else kNoUpdatesAvailable,
                       parseJSON (env_crypto e) director_targets, ''''))))"

definition findForEcu :: "target list \<Rightarrow> string \<Rightarrow> target list" where
  "findForEcu targets ecu_id = filter (\<lambda>t. map_of (t_ecus t) ecu_id \<noteq> None) targets"

end
