(* ===== verification/Client_Facts.thy ===== *)
theory Client_Facts
  imports Uptane_Client
begin

text \<open>
  What the blocks of a metadata update guarantee.  The two repository objects of the client share
  the interface \<open>repo_object\<close>: methods run on the object inside the client's state, and nothing else
  the blocks do touches it.  The lemmas are proved once in the locale and used for both objects.
\<close>

section \<open>Chains of roots\<close>

text \<open>A root is reached from a trusted one by steps of one version, each accepted by both roots.\<close>

inductive root_chain :: "crypto \<Rightarrow> repository_type \<Rightarrow> root \<Rightarrow> root \<Rightarrow> bool" for c repo where
  chain_refl: "root_chain c repo r r"
| chain_step: "root_chain c repo r r1 \<Longrightarrow> Root_ctor c repo json = Inr r2 \<Longrightarrow>
    m_version r2 = m_version r1 + 1 \<Longrightarrow> UnpackSignedObject c r1 repo json = Inr () \<Longrightarrow>
    UnpackSignedObject c r2 repo json = Inr () \<Longrightarrow> root_chain c repo r r2"

lemma root_chain_trans:
  assumes "root_chain c repo r r1" and "root_chain c repo r1 r2"
  shows "root_chain c repo r r2"
  using assms(2,1) by (induction rule: root_chain.induct) (auto intro: chain_step)

lemma root_chain_version: "root_chain c repo r r' \<Longrightarrow> r' = r \<or> m_version r < m_version r'"
  by (induction rule: root_chain.induct) auto

lemma root_chain_wf: "root_chain c repo r r' \<Longrightarrow> Root_wf r \<Longrightarrow> Root_wf r'"
  by (induction rule: root_chain.induct) (auto intro: Root_ctor_wf(1))

lemma verifyRoot_chain_step:
  assumes "verifyRoot c s raw = (Inr True, s')"
  shows "root_chain c (repo_type s) (repo_root s) (repo_root s')" and "s' = s\<lparr>repo_root := repo_root s'\<rparr>"
    and "m_version (repo_root s') = m_version (repo_root s) + 1"
  using verifyRoot_True [OF assms] chain_step [OF chain_refl] by blast+

text \<open>A root that is accepted as a starting point carries its own signatures.\<close>

definition self_signed :: "crypto \<Rightarrow> repository_type \<Rightarrow> string \<Rightarrow> root \<Rightarrow> bool" where
  "self_signed c repo raw r \<longleftrightarrow>
     Root_ctor c repo (parseJSON c raw) = Inr r \<and> UnpackSignedObject c r repo (parseJSON c raw) = Inr ()"

lemma initRoot_True:
  assumes "initRoot c s raw = (Inr True, s')"
  shows "self_signed c (repo_type s) raw (repo_root s')" and "s' = s\<lparr>repo_root := repo_root s'\<rparr>"
  using assms
  by (auto simp: initRoot_def Let_def self_signed_def Root_ctor_verified_def bindE_Inr_iff
      split: sum.splits)

section \<open>Environment calls\<close>

lemma fetchRole_eq:
  "fetchRole e n repo role v s = (r, s') \<longleftrightarrow>
     s' = s\<lparr>cl_tick := cl_tick s + 1\<rparr> \<and>
     r = Inr (http_get e (cl_tick s)
           ((if repo = kDirector then director_server e else repo_server e) @ ''/'' @ Version_RoleFileName v role) n)"
  by (auto simp: fetchRole_def bindS_def getS_def modS_def retS_def Let_def)

lemma clock_eq:
  "clock e s = (r, s') \<longleftrightarrow> r = Inr (TimeStamp_Now e (cl_tick s)) \<and> s' = s\<lparr>cl_tick := cl_tick s + 1\<rparr>"
  by (auto simp: clock_def bindS_def getS_def modS_def retS_def)

lemma on_db_eq: "on_db f s = (r, s') \<longleftrightarrow> r = Inr () \<and> s' = s\<lparr>cl_db := f (cl_db s)\<rparr>"
  by (auto simp: on_db_def modS_def)

lemma fail_if_expired_True:
  "fail_if_expired e expired x s = (Inr True, s') \<longleftrightarrow>
     s' = s\<lparr>cl_tick := cl_tick s + 1\<rparr> \<and> \<not> expired s' (TimeStamp_Now e (cl_tick s))"
  by (auto simp: fail_if_expired_def bindS_eq clock_eq getS_eq set_exception_def modS_eq retS_eq split: if_splits)

lemmas sx_eqs = bindS_eq checkS_True fetchRole_eq fetchLatestRole_def on_db_eq getS_eq modS_eq liftS_eq
  retS_eq skipS_eq fail_if_expired_True

section \<open>The blocks over a repository object\<close>

locale repo_object =
  fixes view :: "client \<Rightarrow> 'a repository_scheme"
    and run :: "('a repository_scheme, bool) sx \<Rightarrow> (client, bool) sx"
    and note_exn :: "(client, unit) sx"
  assumes run_view: "run m s = (r, s') \<Longrightarrow> m (view s) = (r, view s') \<and> cl_db s' = cl_db s"
    and view_db [simp]: "view (s\<lparr>cl_db := d\<rparr>) = view s"
    and view_tick [simp]: "view (s\<lparr>cl_tick := n\<rparr>) = view s"
begin

lemma initial_root_True:
  assumes "initial_root e repo (\<lambda>raw. run (\<lambda>d. initRoot c d raw)) note_exn s = (Inr True, s')"
  shows "\<exists>raw. self_signed c (repo_type (view s)) raw (repo_root (view s')) \<and>
    view s' = (view s)\<lparr>repo_root := repo_root (view s')\<rparr> \<and>
    (loadRoot (cl_db s) repo (-1) = Some raw \<and> cl_db s' = cl_db s \<or>
     loadRoot (cl_db s) repo (-1) = None \<and> cl_db s' = storeRoot (cl_db s) raw repo 1)"
proof (cases "loadRoot (cl_db s) repo (-1)")
  case (Some raw)
  with assms have "run (\<lambda>d. initRoot c d raw) s = (Inr True, s')"
    by (auto simp: initial_root_def sx_eqs ANY_VERSION_def)
  from run_view [OF this] initRoot_True Some show ?thesis by metis
next
  case None
  with assms obtain raw s1 where
    run: "run (\<lambda>d. initRoot c d raw) (s\<lparr>cl_tick := cl_tick s + 1\<rparr>) = (Inr True, s1)"
    and s': "s' = s1\<lparr>cl_db := storeRoot (cl_db s1) raw repo 1\<rparr>"
    by (auto simp: initial_root_def sx_eqs ANY_VERSION_def split: option.splits)
  from run_view [OF run] have "initRoot c (view s) raw = (Inr True, view s')" "cl_db s1 = cl_db s"
    by (simp_all add: s')
  with initRoot_True None s' show ?thesis by (metis client.select_convs(1) client.surjective client.update_convs(1))
qed

lemma rotate_root_True:
  assumes "rotate_root e repo (\<lambda>raw. run (\<lambda>d. verifyRoot c d raw)) note_exn v s = (Inr True, s')"
  shows "root_chain c (repo_type (view s)) (repo_root (view s)) (repo_root (view s')) \<and>
    view s' = (view s)\<lparr>repo_root := repo_root (view s')\<rparr> \<and>
    m_version (repo_root (view s')) = m_version (repo_root (view s)) + 1 \<and>
    (\<exists>raw. cl_db s' = clearNonRootMeta (storeRoot (cl_db s) raw repo v) repo)"
proof -
  from assms obtain raw s1 where
    run: "run (\<lambda>d. verifyRoot c d raw) (s\<lparr>cl_tick := cl_tick s + 1\<rparr>) = (Inr True, s1)"
    and s': "s' = s1\<lparr>cl_db := clearNonRootMeta (storeRoot (cl_db s1) raw repo v) repo\<rparr>"
    by (auto simp: rotate_root_def sx_eqs split: option.splits)
  from run_view [OF run] have "verifyRoot c (view s) raw = (Inr True, view s')" "cl_db s1 = cl_db s"
    by (simp_all add: s')
  with verifyRoot_chain_step [OF this(1)] s' show ?thesis by auto
qed

lemma rotate_roots_True:
  assumes "allS (rotate_root e repo (\<lambda>raw. run (\<lambda>d. verifyRoot c d raw)) note_exn) vs s = (Inr True, s')"
  shows "root_chain c (repo_type (view s)) (repo_root (view s)) (repo_root (view s')) \<and>
    view s' = (view s)\<lparr>repo_root := repo_root (view s')\<rparr> \<and>
    (vs = [] \<longrightarrow> s' = s) \<and>
    m_version (repo_root (view s')) = m_version (repo_root (view s)) + int (length vs)"
  using assms
proof (induction vs arbitrary: s)
  case Nil
  then show ?case by (auto simp: retS_eq intro: chain_refl)
next
  case (Cons v vs)
  then obtain s1 where s1: "rotate_root e repo (\<lambda>raw. run (\<lambda>d. verifyRoot c d raw)) note_exn v s = (Inr True, s1)"
    "allS (rotate_root e repo (\<lambda>raw. run (\<lambda>d. verifyRoot c d raw)) note_exn) vs s1 = (Inr True, s')"
    by (auto simp: checkS_True)
  note step = rotate_root_True [OF s1(1)] and rest = Cons.IH [OF s1(2)]
  have "repo_type (view s1) = repo_type (view s)" using step by (metis repository.select_convs(2) repository.surjective repository.update_convs(1))
  then show ?case
    using step rest root_chain_trans by (auto simp del: repository.update_convs) (metis repository.update_convs(1) repository.surjective)
qed

lemma update_root_True:
  assumes "update_root e repo (\<lambda>raw. run (\<lambda>d. verifyRoot c d raw)) note_exn
      (\<lambda>s. rootVersion (view s)) (\<lambda>s now. rootExpired (view s) now) x s = (Inr True, s')"
  shows "root_chain c (repo_type (view s)) (repo_root (view s)) (repo_root (view s'))"
    and "view s' = (view s)\<lparr>repo_root := repo_root (view s')\<rparr>"
    and "repo_root (view s') = repo_root (view s) \<Longrightarrow> cl_db s' = cl_db s"
    and "\<exists>n. \<not> rootExpired (view s') (TimeStamp_Now e n)"
proof -
  let ?s0 = "s\<lparr>cl_tick := cl_tick s + 1\<rparr>"
  from assms obtain remote s1 where
    loop: "allS (rotate_root e repo (\<lambda>raw. run (\<lambda>d. verifyRoot c d raw)) note_exn)
      [rootVersion (view s) + 1 .. remote] ?s0 = (Inr True, s1)"
    and s': "s' = s1\<lparr>cl_tick := cl_tick s1 + 1\<rparr>" "\<not> rootExpired (view s') (TimeStamp_Now e (cl_tick s1))"
    by (auto simp: update_root_def sx_eqs split: option.splits)
  note roots = rotate_roots_True [OF loop]
  show "root_chain c (repo_type (view s)) (repo_root (view s)) (repo_root (view s'))"
    "view s' = (view s)\<lparr>repo_root := repo_root (view s')\<rparr>"
    using roots by (simp_all add: s'(1))
  show "cl_db s' = cl_db s" if "repo_root (view s') = repo_root (view s)"
  proof -
    from that roots have "int (length [rootVersion (view s) + 1 .. remote]) = 0" by (simp add: s'(1))
    then have "[rootVersion (view s) + 1 .. remote] = []" by (metis length_0_conv of_nat_eq_0_iff)
    with roots have "s1 = ?s0" by simp
    then show ?thesis by (simp add: s'(1))
  qed
  show "\<exists>n. \<not> rootExpired (view s') (TimeStamp_Now e n)" using s'(2) by blast
qed

lemma update_role_True:
  assumes "update_role e repo role maxsize (\<lambda>raw. run (\<lambda>d. ver d raw)) note_exn expired x s = (Inr True, s')"
  shows "\<exists>raw local remote n.
    ver (view s) raw = (Inr True, view s') \<and>
    extractVersionUntrusted (env_crypto e) raw = Inr remote \<and>
    stored_version e repo role (cl_db s) = Inr local \<and> local \<le> remote \<and>
    cl_db s' = (if local < remote then storeNonRoot (cl_db s) raw repo role else cl_db s) \<and>
    \<not> expired s' (TimeStamp_Now e n)"
proof -
  let ?s0 = "s\<lparr>cl_tick := cl_tick s + 1\<rparr>"
  from assms obtain raw where
    rest: "bindS (liftS (extractVersionUntrusted (env_crypto e) raw)) (\<lambda>remote_version.
         bindS (bindS (getS cl_db) (\<lambda>d. liftS (stored_version e repo role d))) (\<lambda>local_version.
         checkS (run (\<lambda>d. ver d raw)) note_exn
           (if local_version > remote_version then retS False
            else bindS (if local_version < remote_version then on_db (\<lambda>d. storeNonRoot d raw repo role)
                        else skipS) (\<lambda>_.
                 fail_if_expired e expired x)))) ?s0 = (Inr True, s')"
    by (auto simp: update_role_def bindS_eq [of "getS _"] bindS_eq [of "fetchRole _ _ _ _ _"] getS_eq
        fetchLatestRole_def fetchRole_eq retS_eq split: option.splits)
  from rest obtain remote loc s1 where
    remote: "extractVersionUntrusted (env_crypto e) raw = Inr remote"
    and loc: "stored_version e repo role (cl_db s) = Inr loc"
    and run: "run (\<lambda>d. ver d raw) ?s0 = (Inr True, s1)"
    and k: "(if loc > remote then retS False
            else bindS (if loc < remote then on_db (\<lambda>d. storeNonRoot d raw repo role) else skipS) (\<lambda>_.
                 fail_if_expired e expired x)) s1 = (Inr True, s')"
    by (auto simp: bindS_eq liftS_eq getS_eq checkS_True simp del: if_split)
      (metis (no_types, lifting))
  let ?s2 = "if loc < remote then s1\<lparr>cl_db := storeNonRoot (cl_db s1) raw repo role\<rparr> else s1"
  from k have le: "loc \<le> remote" and s': "s' = ?s2\<lparr>cl_tick := cl_tick ?s2 + 1\<rparr>"
    "\<not> expired s' (TimeStamp_Now e (cl_tick ?s2))"
    by (auto simp: bindS_eq on_db_eq skipS_eq fail_if_expired_True retS_eq split: if_splits)
  from run_view [OF run] have "ver (view s) raw = (Inr True, view s1)" "cl_db s1 = cl_db s" by simp_all
  then have "ver (view s) raw = (Inr True, view s')"
    "cl_db s' = (if loc < remote then storeNonRoot (cl_db s) raw repo role else cl_db s)"
    by (simp_all add: s'(1))
  with remote loc le s'(2) show ?thesis by blast
qed

lemma load_and_check_True:
  assumes "load_and_check e load (\<lambda>raw. run (\<lambda>d. ver d raw)) note_exn expired x s = (Inr True, s')"
  shows "\<exists>raw n. load (cl_db s) = Some raw \<and> ver (view s) raw = (Inr True, view s') \<and>
    cl_db s' = cl_db s \<and> \<not> expired s' (TimeStamp_Now e n)"
proof -
  from assms obtain raw s1 where "load (cl_db s) = Some raw" and run: "run (\<lambda>d. ver d raw) s = (Inr True, s1)"
    and s': "s' = s1\<lparr>cl_tick := cl_tick s1 + 1\<rparr>" "\<not> expired s' (TimeStamp_Now e (cl_tick s1))"
    by (auto simp: load_and_check_def sx_eqs split: option.splits)
  with run_view [OF run] show ?thesis by (auto simp: s'(1))
qed

end

interpretation director: repo_object cl_director on_director note_director
  by unfold_locales (auto simp: on_director_def split: prod.splits)

interpretation images: repo_object cl_images on_images note_images
  by unfold_locales (auto simp: on_images_def split: prod.splits)

end
