(* ===== verification/Client_Properties.thy ===== *)
theory Client_Properties
  imports Client_Facts Samples
begin

text \<open>
  The properties of the primary client's metadata cycle.
\<close>

section \<open>New targets\<close>

definition ecu_known :: "client \<Rightarrow> string \<times> string \<Rightarrow> bool" where
  "ecu_known s = (\<lambda>(serial, hw). map_of (cl_hw_ids s) serial = Some hw)"

definition outdated :: "env \<Rightarrow> client \<Rightarrow> target \<Rightarrow> string \<Rightarrow> bool" where
  "outdated e s t serial =
     (let (versions, current, _) = loadInstalledVersions (env_sql_order e) (cl_db s) serial
      in case current of None \<Rightarrow> True | Some i \<Rightarrow> t_filename (versions ! i) \<noteq> t_filename t)"

lemma scan_ecus_Inr_iff:
  "(\<exists>n'. scan_ecus e s t ecus (b, n) = Inr (b', n')) \<longleftrightarrow>
     (\<forall>ecu \<in> set ecus. ecu_known s ecu) \<and> b' = (b \<or> (\<exists>ecu \<in> set ecus. outdated e s t (fst ecu)))"
proof (induction ecus arbitrary: b n)
  case (Cons ecu ecus)
  obtain serial hw where ecu: "ecu = (serial, hw)" by (cases ecu)
  obtain vs cur p where load: "loadInstalledVersions (env_sql_order e) (cl_db s) serial = (vs, cur, p)"
    by (cases "loadInstalledVersions (env_sql_order e) (cl_db s) serial") auto
  show ?case
  proof (cases "ecu_known s ecu")
    case True
    then have "map_of (cl_hw_ids s) serial = Some hw" by (simp add: ecu ecu_known_def)
    then have "scan_ecus e s t (ecu # ecus) (b, n) =
        scan_ecus e s t ecus (b \<or> outdated e s t serial, if b \<or> outdated e s t serial then n + 1 else n)"
      by (cases cur) (auto simp: ecu load outdated_def)
    with Cons.IH True show ?thesis by (auto simp: ecu)
  next
    case False
    then show ?thesis
      by (auto simp: ecu ecu_known_def split: option.splits)
  qed
qed auto

lemma scan_targets_Inr:
  assumes "scan_targets e s ts (acc, n) = Inr (new, n')"
  shows "(\<forall>t \<in> set ts. \<forall>ecu \<in> set (t_ecus t). ecu_known s ecu) \<and>
    new = acc @ filter (\<lambda>t. \<exists>ecu \<in> set (t_ecus t). outdated e s t (fst ecu)) ts"
  using assms
proof (induction ts arbitrary: acc n)
  case (Cons t ts)
  from Cons.prems obtain b m where
    st: "scan_ecus e s t (t_ecus t) (False, n) = Inr (b, m)"
    and rest: "scan_targets e s ts (if b then acc @ [t] else acc, m) = Inr (new, n')"
    by (auto simp: bindE_Inr_iff)
  from st scan_ecus_Inr_iff [of e s t "t_ecus t" False n b]
  have "\<forall>ecu \<in> set (t_ecus t). ecu_known s ecu" "b = (\<exists>ecu \<in> set (t_ecus t). outdated e s t (fst ecu))"
    by auto
  with Cons.IH [OF rest] show ?case by auto
qed simp

lemma scan_targets_Inl:
  assumes "scan_targets e s ts (acc, n) = Inl x"
  shows "\<exists>t \<in> set ts. \<exists>ecu \<in> set (t_ecus t). \<not> ecu_known s ecu"
  using assms
proof (induction ts arbitrary: acc n)
  case (Cons t ts)
  show ?case
  proof (cases "scan_ecus e s t (t_ecus t) (False, n)")
    case (Inl y)
    with scan_ecus_Inr_iff [of e s t "t_ecus t" False n "\<exists>ecu \<in> set (t_ecus t). outdated e s t (fst ecu)"]
    have "\<not> (\<forall>ecu \<in> set (t_ecus t). ecu_known s ecu)" by simp
    then show ?thesis by auto
  next
    case (Inr bm)
    then obtain b m where "scan_ecus e s t (t_ecus t) (False, n) = Inr (b, m)" by (cases bm) auto
    with Cons show ?thesis by auto
  qed
qed simp

text \<open>
  C14. \<open>getNewTargets\<close> succeeds exactly when every ECU that the director's targets name is known with
  that hardware identifier, and then the new targets are those with an ECU that has no
  current version or one with another file name, in the director's order.
\<close>

theorem getNewTargets_spec:
  "let ts = tgt_targets (d_targets (cl_director s));
       known = (\<forall>t \<in> set ts. \<forall>ecu \<in> set (t_ecus t). ecu_known s ecu)
   in case getNewTargets e s of
        (Inr (Some (new, _)), s') \<Rightarrow>
          known \<and> s' = s \<and> new = filter (\<lambda>t. \<exists>ecu \<in> set (t_ecus t). outdated e s t (fst ecu)) ts
      | (Inr None, s') \<Rightarrow> \<not> known \<and> (\<exists>x. s' = s\<lparr>cl_last_exception := x\<rparr>)
      | (Inl _, _) \<Rightarrow> False"
proof (cases "scan_targets e s (tgt_targets (d_targets (cl_director s))) ([], 0)")
  case (Inl x)
  with scan_targets_Inl [OF Inl] show ?thesis by (auto simp: getNewTargets_def Let_def)
next
  case (Inr r)
  obtain new n where r: "r = (new, n)" by (cases r)
  with Inr scan_targets_Inr [of e s _ "[]" 0 new n] show ?thesis
    by (simp add: getNewTargets_def Let_def)
qed

section \<open>The director update\<close>

lemma updateDirectorMeta_steps:
  assumes "updateDirectorMeta e s = (Inr True, s')"
  shows "\<exists>s1 s2. initial_root e kDirector (\<lambda>raw. on_director (\<lambda>d. initRoot (env_crypto e) d raw)) note_director
        (s\<lparr>cl_director := Director_resetMeta (cl_director s)\<rparr>) = (Inr True, s1) \<and>
      update_root e kDirector (\<lambda>raw. on_director (\<lambda>d. verifyRoot (env_crypto e) d raw)) note_director
        (\<lambda>s. rootVersion (cl_director s)) (\<lambda>s now. rootExpired (cl_director s) now)
        (ExpiredMetadata ''director'' ''root'') s1 = (Inr True, s2) \<and>
      update_role e kDirector kTargets (\<lambda>_. kMaxDirectorTargetsSize)
        (\<lambda>raw. on_director (\<lambda>d. Director_verifyTargets (env_crypto e) d raw)) note_director
        (\<lambda>s now. Director_targetsExpired (cl_director s) now)
        (ExpiredMetadata ''director'' ''targets'') s2 = (Inr True, s')"
  using assms unfolding updateDirectorMeta_def Let_def bindS_eq modS_eq checkS_True by auto

lemma Director_resetMeta_simps [simp]:
  "repo_type (Director_resetMeta d) = repo_type d"
  by (simp add: Director_resetMeta_def resetRoot_def)

text \<open>
  C15. When \<open>updateDirectorMeta\<close> returns true, the director's root is reached by a chain of doubly signed
  roots from a self-signed root, which is the stored one if there is one; the
  targets in place are signed by that root's targets keys; and neither root nor targets had expired at
  the moment of the check.  This holds whatever the network answered.
\<close>

theorem updateDirectorMeta_trusted:
  assumes "updateDirectorMeta e s = (Inr True, s')"
  shows "\<exists>raw r0. self_signed (env_crypto e) (repo_type (cl_director s)) raw r0 \<and>
    (loadRoot (cl_db s) kDirector ANY_VERSION = Some raw \<or> loadRoot (cl_db s) kDirector ANY_VERSION = None) \<and>
    root_chain (env_crypto e) (repo_type (cl_director s)) r0 (repo_root (cl_director s')) \<and>
    threshold_met (env_crypto e) (repo_root (cl_director s')) (m_original (d_targets (cl_director s'))) kTargets \<and>
    (\<exists>n. \<not> rootExpired (cl_director s') (TimeStamp_Now e n)) \<and>
    (\<exists>n. \<not> Director_targetsExpired (cl_director s') (TimeStamp_Now e n))"
proof -
  let ?c = "env_crypto e"
  from updateDirectorMeta_steps [OF assms] obtain s1 s2 where
    init: "initial_root e kDirector (\<lambda>raw. on_director (\<lambda>d. initRoot ?c d raw)) note_director
        (s\<lparr>cl_director := Director_resetMeta (cl_director s)\<rparr>) = (Inr True, s1)"
    and root: "update_root e kDirector (\<lambda>raw. on_director (\<lambda>d. verifyRoot ?c d raw)) note_director
        (\<lambda>s. rootVersion (cl_director s)) (\<lambda>s now. rootExpired (cl_director s) now)
        (ExpiredMetadata ''director'' ''root'') s1 = (Inr True, s2)"
    and tgt: "update_role e kDirector kTargets (\<lambda>_. kMaxDirectorTargetsSize)
        (\<lambda>raw. on_director (\<lambda>d. Director_verifyTargets ?c d raw)) note_director
        (\<lambda>s now. Director_targetsExpired (cl_director s) now)
        (ExpiredMetadata ''director'' ''targets'') s2 = (Inr True, s')"
    by blast
  from director.initial_root_True [OF init] obtain raw where
    raw: "self_signed ?c (repo_type (cl_director s)) raw (repo_root (cl_director s1))"
      "repo_type (cl_director s1) = repo_type (cl_director s)"
      "loadRoot (cl_db s) kDirector ANY_VERSION = Some raw \<or> loadRoot (cl_db s) kDirector ANY_VERSION = None"
    by (auto simp: ANY_VERSION_def) (metis repository.select_convs(2) repository.surjective repository.update_convs(1) Director_resetMeta_simps)+
  note chain = director.update_root_True [OF root]
  from director.update_role_True [OF tgt] obtain tg n where
    tg: "Director_verifyTargets ?c (cl_director s2) tg = (Inr True, cl_director s')"
      "\<not> Director_targetsExpired (cl_director s') (TimeStamp_Now e n)"
    by blast
  have same: "repo_root (cl_director s') = repo_root (cl_director s2)"
    using director_targets.verify_root [of ?c "cl_director s2" tg] by (simp add: tg(1))
  have "Root_wf (repo_root (cl_director s1))"
    using raw(1) by (auto simp: self_signed_def intro: Root_ctor_wf(1))
  from root_chain_wf [OF chain(1) this] have "r_policy (repo_root (cl_director s2)) = kCheck"
    by (simp add: Root_wf_def)
  from director_targets.verify_true [OF this, of ?c tg] have
    "threshold_met ?c (repo_root (cl_director s')) (m_original (d_targets (cl_director s'))) kTargets"
    by (simp add: tg(1) same)
  moreover have "\<not> rootExpired (cl_director s') (TimeStamp_Now e m) = (\<not> rootExpired (cl_director s2) (TimeStamp_Now e m))" for m
    by (simp add: rootExpired_def same)
  ultimately show ?thesis
    using raw chain(1,4) tg(2) unfolding same by metis
qed

definition sample_http :: "nat \<Rightarrow> string \<Rightarrow> int \<Rightarrow> string option" where
  "sample_http n url maxsize =
     map_of [(''d/1.root.json'', ''root1''), (''d/root.json'', ''root2''), (''d/2.root.json'', ''root2''),
             (''d/targets.json'', ''targets1''), (''r/1.root.json'', ''root1''), (''r/root.json'', ''root1''),
             (''r/timestamp.json'', ''timestamp1''), (''r/snapshot.json'', ''snapshot1''),
             (''r/targets.json'', ''targets1'')] url"

definition sample_env :: env where
  "sample_env =
     \<lparr>env_crypto = sample_crypto, http_get = sample_http, TimeStamp_Now = (\<lambda>_. ''2026-01-01T00:00:00Z''),
      director_server = ''d'', repo_server = ''r'', env_sql_order = (\<lambda>rows. rows)\<rparr>"

definition sample_client :: client where
  "sample_client =
     \<lparr>cl_db = storeNonRoot empty_db ''targets1'' kDirector kTargets, cl_director = DirectorRepository_ctor, cl_images = ImagesRepository_ctor,
      cl_hw_ids = [(''ecu1'', ''hw1'')], cl_last_exception = UptaneException '''' '''', cl_tick = 0\<rparr>"

lemma sample_updateDirectorMeta: "fst (updateDirectorMeta sample_env sample_client) = Inr True"
  by code_simp

lemma sample_new_targets:
  "case fst (getNewTargets sample_env (snd (updateDirectorMeta sample_env sample_client))) of
     Inr (Some (new, n)) \<Rightarrow> map t_filename new = [''fw''] | _ \<Rightarrow> False"
  by code_simp

theorem getNewTargets_spec_witness:
  "let s = snd (updateDirectorMeta sample_env sample_client)
   in snd (getNewTargets sample_env s) = s \<and>
      map t_filename (filter (\<lambda>t. \<exists>ecu \<in> set (t_ecus t). outdated sample_env s t (fst ecu))
        (tgt_targets (d_targets (cl_director s)))) = [''fw'']"
proof -
  let ?s = "snd (updateDirectorMeta sample_env sample_client)"
  obtain r s' where run: "getNewTargets sample_env ?s = (r, s')" by (cases "getNewTargets sample_env ?s")
  with sample_new_targets obtain new n where "r = Inr (Some (new, n))" "map t_filename new = [''fw'']"
    by (auto split: sum.splits option.splits)
  with run getNewTargets_spec [where s = ?s and e = sample_env] show ?thesis by (simp add: Let_def)
qed

lemma fst_True_pair: "fst p = Inr True \<Longrightarrow> p = (Inr True, snd p)"
  by (cases p) simp

theorem updateDirectorMeta_trusted_witness:
  "updateDirectorMeta sample_env sample_client = (Inr True, snd (updateDirectorMeta sample_env sample_client)) \<and>
   (\<exists>r. threshold_met sample_crypto r
      (m_original (d_targets (cl_director (snd (updateDirectorMeta sample_env sample_client))))) kTargets)"
proof -
  note ok = fst_True_pair [OF sample_updateDirectorMeta]
  from updateDirectorMeta_trusted [OF ok] ok show ?thesis
    by (auto simp: sample_env_def)
qed


lemma sample_stored_targets:
  "loadNonRoot (cl_db sample_client) kDirector kTargets = Some ''targets1''"
  "extractVersionUntrusted (env_crypto sample_env) ''targets1'' = Inr 1"
  by code_simp+


section \<open>The images update\<close>

lemma updateImagesMeta_steps:
  assumes "updateImagesMeta e s = (Inr True, s')"
  shows "\<exists>s1 s2 s3 s4. initial_root e kImage (\<lambda>raw. on_images (\<lambda>d. initRoot (env_crypto e) d raw)) note_images
        (s\<lparr>cl_images := Images_resetMeta (cl_images s)\<rparr>) = (Inr True, s1) \<and>
      update_root e kImage (\<lambda>raw. on_images (\<lambda>d. verifyRoot (env_crypto e) d raw)) note_images
        (\<lambda>s. rootVersion (cl_images s)) (\<lambda>s now. rootExpired (cl_images s) now)
        (ExpiredMetadata ''repo'' ''root'') s1 = (Inr True, s2) \<and>
      update_role e kImage kTimestamp (\<lambda>_. kMaxTimestampSize)
        (\<lambda>raw. on_images (\<lambda>d. Images_verifyTimestamp (env_crypto e) d raw)) note_images
        (\<lambda>s now. Images_timestampExpired (cl_images s) now) (ExpiredMetadata ''repo'' ''timestamp'') s2 = (Inr True, s3) \<and>
      update_role e kImage kSnapshot
        (\<lambda>s. let n = snapshot_size (i_timestamp (cl_images s)) in if n > 0 then n else kMaxSnapshotSize)
        (\<lambda>raw. on_images (\<lambda>d. Images_verifySnapshot (env_crypto e) d raw)) note_images
        (\<lambda>s now. Images_snapshotExpired (cl_images s) now) (ExpiredMetadata ''repo'' ''snapshot'') s3 = (Inr True, s4) \<and>
      update_role e kImage kTargets
        (\<lambda>s. let n = targets_size (i_snapshot (cl_images s)) in if n > 0 then n else kMaxImagesTargetsSize)
        (\<lambda>raw. on_images (\<lambda>d. Images_verifyTargets (env_crypto e) d raw)) note_images
        (\<lambda>s now. Images_targetsExpired (cl_images s) now) (ExpiredMetadata ''repo'' ''targets'') s4 = (Inr True, s')"
  using assms unfolding updateImagesMeta_def bindS_eq modS_eq checkS_True Let_def [of "env_crypto e"] by auto

text \<open>
  The images repository is consistent when one timestamp, snapshot and targets file, all signed under
  its root, are linked by digests and versions, and it holds those targets.
\<close>

definition images_consistent :: "crypto \<Rightarrow> images_repository \<Rightarrow> bool" where
  "images_consistent c d \<longleftrightarrow>
     (\<exists>ts sn tg.
        threshold_met c (repo_root d) (parseJSON c ts) kTimestamp \<and>
        threshold_met c (repo_root d) (parseJSON c sn) kSnapshot \<and>
        threshold_met c (repo_root d) (parseJSON c tg) kTargets \<and>
        matches_hashes c (FastWriter_write c (parseJSON c sn)) (snapshot_hashes (i_timestamp d)) \<and>
        m_version (i_snapshot d) = snapshot_version (i_timestamp d) \<and>
        matches_hashes c (FastWriter_write c (parseJSON c tg)) (targets_hashes (i_snapshot d)) \<and>
        m_version (i_targets d) = targets_version (i_snapshot d) \<and>
        Targets_ctor (parseJSON c tg) = Inr (i_targets d))"

lemma images_consistentI:
  assumes "r_policy (repo_root d) = kCheck"
    and "Images_verifyTimestamp c d ts_raw = (Inr True, d1)"
    and "Images_verifySnapshot c d1 sn_raw = (Inr True, d2)"
    and "Images_verifyTargets c d2 tg_raw = (Inr True, d3)"
  shows "images_consistent c d3 \<and> repo_root d3 = repo_root d"
  using Images_verify_in_sequence [OF assms] unfolding images_consistent_def by metis

lemma Images_resetMeta_simps [simp]: "repo_type (Images_resetMeta d) = repo_type d"
  by (simp add: Images_resetMeta_def resetRoot_def)


lemma sample_updateImagesMeta: "fst (updateImagesMeta sample_env sample_client) = Inr True"
  by code_simp


section \<open>The offline iteration\<close>

definition same_director :: "client \<Rightarrow> client \<Rightarrow> bool" where
  "same_director s s' \<longleftrightarrow> cl_director s' = cl_director s"

lemma same_director_preorder: "reflp same_director" "transp same_director"
  by (auto simp: same_director_def reflp_def transp_def)

lemma keeps_director_basic:
  "keepsS same_director (on_images m)" "keepsS same_director note_images" "keepsS same_director (clock e)"
  "keepsS same_director (set_exception x)"
  by (auto simp: keepsS_def same_director_def on_images_def note_images_def clock_def set_exception_def
      bindS_def getS_def modS_def retS_def split: prod.splits)

lemma keeps_director_reset:
  "keepsS same_director (modS (\<lambda>s. s\<lparr>cl_images := Images_resetMeta (cl_images s)\<rparr>))"
  by (simp add: keepsS_def same_director_def modS_def)

lemma keeps_director_load_and_check:
  "keepsS same_director (load_and_check e load (\<lambda>raw. on_images (m raw)) note_images expired x)"
  unfolding load_and_check_def fail_if_expired_def
  by (intro keepsS_bindS keepsS_simple same_director_preorder)
    (auto split: option.split intro!: keepsS_checkS keepsS_bindS keepsS_simple keepsS_If
      same_director_preorder keeps_director_basic)

lemma checkImagesMetaOffline_director:
  "checkImagesMetaOffline e s = (r, s') \<Longrightarrow> cl_director s' = cl_director s"
proof -
  assume run: "checkImagesMetaOffline e s = (r, s')"
  have "keepsS same_director (checkImagesMetaOffline e)"
    unfolding checkImagesMetaOffline_def Let_def
    by (intro keepsS_bindS keepsS_checkS keeps_director_load_and_check keepsS_simple keeps_director_reset
        same_director_preorder)
  then have "same_director s (snd (checkImagesMetaOffline e s))" by (simp add: keepsS_def)
  then show ?thesis using run by (simp add: same_director_def)
qed

lemma checkDirectorMetaOffline_True:
  assumes "checkDirectorMetaOffline e s = (Inr True, s')"
  shows "\<exists>root_raw raw. loadRoot (cl_db s) kDirector ANY_VERSION = Some root_raw \<and>
    self_signed (env_crypto e) (repo_type (cl_director s)) root_raw (repo_root (cl_director s')) \<and>
    loadNonRoot (cl_db s) kDirector kTargets = Some raw \<and>
    threshold_met (env_crypto e) (repo_root (cl_director s')) (parseJSON (env_crypto e) raw) kTargets \<and>
    m_original (d_targets (cl_director s')) = parseJSON (env_crypto e) raw \<and> cl_db s' = cl_db s"
proof -
  let ?c = "env_crypto e"
  from assms obtain s1 where
    root: "load_and_check e (\<lambda>d. loadRoot d kDirector ANY_VERSION)
        (\<lambda>raw. on_director (\<lambda>d. initRoot ?c d raw)) note_director
        (\<lambda>s now. rootExpired (cl_director s) now) (ExpiredMetadata ''director'' ''root'')
        (s\<lparr>cl_director := Director_resetMeta (cl_director s)\<rparr>) = (Inr True, s1)"
    and tgt: "load_and_check e (\<lambda>d. loadNonRoot d kDirector kTargets)
        (\<lambda>raw. on_director (\<lambda>d. Director_verifyTargets ?c d raw)) note_director
        (\<lambda>s now. Director_targetsExpired (cl_director s) now) (ExpiredMetadata ''director'' ''targets'') s1 = (Inr True, s')"
    unfolding checkDirectorMetaOffline_def Let_def bindS_eq modS_eq checkS_True by auto
  from director.load_and_check_True [OF root] obtain root_raw where
    r: "loadRoot (cl_db s) kDirector ANY_VERSION = Some root_raw" "cl_db s1 = cl_db s"
      "initRoot ?c (Director_resetMeta (cl_director s)) root_raw = (Inr True, cl_director s1)" by auto
  from director.load_and_check_True [OF tgt] obtain raw where
    t: "loadNonRoot (cl_db s1) kDirector kTargets = Some raw" "cl_db s' = cl_db s1"
      "Director_verifyTargets ?c (cl_director s1) raw = (Inr True, cl_director s')" by blast
  note init = initRoot_True [OF r(3)]
  from init(1) have "r_policy (repo_root (cl_director s1)) = kCheck"
    by (auto simp: self_signed_def dest: Root_ctor_wf(1) simp: Root_wf_def)
  from director_targets.verify_true [OF this, of ?c raw] director_targets.verify_root [of ?c "cl_director s1" raw]
  show ?thesis using r t init(1) by auto
qed

lemma checkImagesMetaOffline_True:
  assumes "checkImagesMetaOffline e s = (Inr True, s')"
  shows "images_consistent (env_crypto e) (cl_images s') \<and> cl_db s' = cl_db s"
proof -
  let ?c = "env_crypto e"
  from assms obtain s1 s2 s3 where
    root: "load_and_check e (\<lambda>d. loadRoot d kImage ANY_VERSION)
        (\<lambda>raw. on_images (\<lambda>d. initRoot ?c d raw)) note_images
        (\<lambda>s now. rootExpired (cl_images s) now) (ExpiredMetadata ''repo'' ''root'')
        (s\<lparr>cl_images := Images_resetMeta (cl_images s)\<rparr>) = (Inr True, s1)"
    and ts: "load_and_check e (\<lambda>d. loadNonRoot d kImage kTimestamp)
        (\<lambda>raw. on_images (\<lambda>d. Images_verifyTimestamp ?c d raw)) note_images
        (\<lambda>s now. Images_timestampExpired (cl_images s) now) (ExpiredMetadata ''repo'' ''timestamp'') s1 = (Inr True, s2)"
    and sn: "load_and_check e (\<lambda>d. loadNonRoot d kImage kSnapshot)
        (\<lambda>raw. on_images (\<lambda>d. Images_verifySnapshot ?c d raw)) note_images
        (\<lambda>s now. Images_snapshotExpired (cl_images s) now) (ExpiredMetadata ''repo'' ''snapshot'') s2 = (Inr True, s3)"
    and tg: "load_and_check e (\<lambda>d. loadNonRoot d kImage kTargets)
        (\<lambda>raw. on_images (\<lambda>d. Images_verifyTargets ?c d raw)) note_images
        (\<lambda>s now. Images_targetsExpired (cl_images s) now) (ExpiredMetadata ''repo'' ''targets'') s3 = (Inr True, s')"
    unfolding checkImagesMetaOffline_def Let_def bindS_eq modS_eq checkS_True by auto
  from images.load_and_check_True [OF root] obtain root_raw where
    r: "cl_db s1 = cl_db s" "initRoot ?c (Images_resetMeta (cl_images s)) root_raw = (Inr True, cl_images s1)" by auto
  from images.load_and_check_True [OF ts] images.load_and_check_True [OF sn] images.load_and_check_True [OF tg]
  obtain ts_raw sn_raw tg_raw where
    "Images_verifyTimestamp ?c (cl_images s1) ts_raw = (Inr True, cl_images s2)"
    "Images_verifySnapshot ?c (cl_images s2) sn_raw = (Inr True, cl_images s3)"
    "Images_verifyTargets ?c (cl_images s3) tg_raw = (Inr True, cl_images s')"
    and db: "cl_db s2 = cl_db s1" "cl_db s3 = cl_db s2" "cl_db s' = cl_db s3"
    by blast
  moreover from initRoot_True(1) [OF r(2)] have "r_policy (repo_root (cl_images s1)) = kCheck"
    by (auto simp: self_signed_def dest: Root_ctor_wf(1) simp: Root_wf_def)
  ultimately show ?thesis using images_consistentI r(1) by metis
qed


definition sample_offline_client :: client where
  "sample_offline_client =
     sample_client\<lparr>cl_db :=
       storeNonRoot (storeNonRoot (storeNonRoot (storeNonRoot
         (storeRoot (storeRoot empty_db ''root1'' kDirector 1) ''root1'' kImage 1)
         ''targets1'' kDirector kTargets) ''timestamp1'' kImage kTimestamp)
         ''snapshot1'' kImage kSnapshot) ''targets1'' kImage kTargets\<rparr>"

lemma sample_offline:
  "(case fst (uptaneOfflineIteration sample_env sample_offline_client) of
      Inr (Some (ts, n)) \<Rightarrow> map t_filename ts = [''fw''] | _ \<Rightarrow> False)"
  by code_simp


end
