(* ===== verification/Secondaries.thy ===== *)
theory Secondaries
  imports Client_Facts Samples
begin

text \<open>
  The secondaries: \<open>ManagedSecondary\<close> with \<open>VirtualSecondary\<close> and \<open>PartialVerificationSecondary\<close>, which run inside of the
  primary (\<open>libaktualizr/uptane\<close>), and \<open>AktualizrSecondary\<close>, the program on an ECU of its own
  (\<open>aktualizr_secondary\<close>).  Archives, OSTree, package managers and signing are parameters.
\<close>

section \<open>Metadata packs\<close>

record raw_meta_pack =
  raw_director_root :: string
  raw_director_targets :: string
  raw_image_root :: string
  raw_image_targets :: string
  raw_image_timestamp :: string
  raw_image_snapshot :: string

record meta_pack =
  mp_director_root :: root
  mp_director_targets :: targets
  mp_image_root :: root
  mp_image_targets :: targets
  mp_image_timestamp :: timestamp_meta
  mp_image_snapshot :: snapshot_meta

section \<open>Managed secondaries\<close>

text \<open>
  \<open>ms_serial\<close> is the value of \<open>getSerial\<close>.  The last two fields are the files of a virtual secondary; \<open>None\<close> is a
  missing file.
\<close>

record managed =
  ms_serial :: string
  ms_keyid :: string
  ms_attack :: string
  ms_target_name :: string
  ms_target_hashes :: "hash list"
  ms_target_length :: nat
  ms_meta :: meta_pack
  ms_raw :: raw_meta_pack
  ms_target_name_file :: "string option"
  ms_firmware_file :: "string option"

abbreviation upd_meta :: "(meta_pack \<Rightarrow> meta_pack) \<Rightarrow> (managed, unit) sx" where
  "upd_meta f \<equiv> modS (\<lambda>s. s\<lparr>ms_meta := f (ms_meta s)\<rparr>)"

definition rawToMeta :: "crypto \<Rightarrow> (managed, unit) sx" where
  "rawToMeta c =
     bindS (getS ms_raw) (\<lambda>raw.
     bindS (bindS (liftS (Root_ctor c kDirector (parseJSON c (raw_director_root raw)))) (\<lambda>r. upd_meta (mp_director_root_update (\<lambda>_. r)))) (\<lambda>_.
     bindS (bindS (liftS (Targets_ctor (parseJSON c (raw_director_targets raw)))) (\<lambda>t. upd_meta (mp_director_targets_update (\<lambda>_. t)))) (\<lambda>_.
     bindS (bindS (liftS (Root_ctor c kImage (parseJSON c (raw_image_root raw)))) (\<lambda>r. upd_meta (mp_image_root_update (\<lambda>_. r)))) (\<lambda>_.
     bindS (bindS (liftS (Targets_ctor (parseJSON c (raw_image_targets raw)))) (\<lambda>t. upd_meta (mp_image_targets_update (\<lambda>_. t)))) (\<lambda>_.
     bindS (bindS (liftS (TimestampMeta_ctor (parseJSON c (raw_image_timestamp raw)))) (\<lambda>t. upd_meta (mp_image_timestamp_update (\<lambda>_. t)))) (\<lambda>_.
     bindS (liftS (Snapshot_ctor (parseJSON c (raw_image_snapshot raw)))) (\<lambda>t. upd_meta (mp_image_snapshot_update (\<lambda>_. t)))))))))"

definition is_consistent :: "crypto \<Rightarrow> (managed, bool) sx" where
  "is_consistent c = bindS (getS ms_meta) (\<lambda>m. liftS (MetaPack_isConsistent c (mp_director_root m) (mp_director_targets m)))"

text \<open>The loop over the director's targets, with the flag \<open>target_found\<close>.\<close>

fun expect_target :: "target list \<Rightarrow> bool \<Rightarrow> managed \<Rightarrow> bool \<times> managed" where
  "expect_target [] target_found s = (target_found, s)"
| "expect_target (it # its) target_found s =
     (if map_of (t_ecus it) (ms_serial s) \<noteq> None then
        if target_found then (target_found, s\<lparr>ms_attack := ''Duplicate entry for this ECU''\<rparr>)
        else expect_target its True
               (s\<lparr>ms_target_name := t_filename it, ms_target_hashes := t_hashes it, ms_target_length := t_length it\<rparr>)
      else expect_target its target_found s)"

definition Managed_putMetadata :: "crypto \<Rightarrow> raw_meta_pack \<Rightarrow> (managed, bool) sx" where
  "Managed_putMetadata c pack =
     bindS (modS (\<lambda>s. s\<lparr>ms_attack := '''', ms_raw := pack\<rparr>)) (\<lambda>_.
     bindS (rawToMeta c) (\<lambda>_.
     checkS (is_consistent c) skipS
       (bindS (modS (\<lambda>s.
          let s = s\<lparr>ms_target_name := '''', ms_target_hashes := [], ms_target_length := 0\<rparr>;
              (target_found, s) = expect_target (tgt_targets (mp_director_targets (ms_meta s))) False s
          in if \<not> target_found then s\<lparr>ms_attack := ''No update for this ECU''\<rparr> else s)) (\<lambda>_.
        retS True))))"

definition Managed_getRootVersion :: "bool \<Rightarrow> managed \<Rightarrow> int" where
  "Managed_getRootVersion director s =
     (if director then m_version (mp_director_root (ms_meta s)) else m_version (mp_image_root (ms_meta s)))"

text \<open>The text of the detected attack, with the two versions, is the parameter \<open>version_text\<close>.\<close>

definition Managed_putRoot :: "crypto \<Rightarrow> (int \<Rightarrow> int \<Rightarrow> string) \<Rightarrow> string \<Rightarrow> bool \<Rightarrow> (managed, bool) sx" where
  "Managed_putRoot c version_text root_raw director =
     bindS (liftS (Root_ctor c (if director then kDirector else kImage) (parseJSON c root_raw))) (\<lambda>new_root.
     bindS (modS (\<lambda>s.
       let prev = Managed_getRootVersion director s
       in if m_version new_root = prev + 1 then
            if director
            then s\<lparr>ms_meta := (ms_meta s)\<lparr>mp_director_root := new_root\<rparr>, ms_raw := (ms_raw s)\<lparr>raw_director_root := root_raw\<rparr>\<rparr>
            else s\<lparr>ms_meta := (ms_meta s)\<lparr>mp_image_root := new_root\<rparr>, ms_raw := (ms_raw s)\<lparr>raw_image_root := root_raw\<rparr>\<rparr>
          else s\<lparr>ms_attack := version_text prev (m_version new_root)\<rparr>)) (\<lambda>_.
     checkS (is_consistent c) skipS (retS True)))"

text \<open>The loop over the expected hashes; a hash of another type is passed over.\<close>

fun firmware_hashes_ok :: "crypto \<Rightarrow> string \<Rightarrow> hash list \<Rightarrow> bool" where
  "firmware_hashes_ok c data [] = True"
| "firmware_hashes_ok c data (it # its) =
     (if Hash_TypeString it = ''sha256'' then
        if to_lower (sha256digest_hex c data) \<noteq> to_lower (h_value it) then False else firmware_hashes_ok c data its
      else if Hash_TypeString it = ''sha512'' then
        if to_lower (sha512digest_hex c data) \<noteq> to_lower (h_value it) then False else firmware_hashes_ok c data its
      else firmware_hashes_ok c data its)"

definition storeFirmware :: "string \<Rightarrow> string \<Rightarrow> managed \<Rightarrow> bool \<times> managed" where
  "storeFirmware target_name content s = (True, s\<lparr>ms_target_name_file := Some target_name, ms_firmware_file := Some content\<rparr>)"

definition Managed_sendFirmware :: "crypto \<Rightarrow> string \<Rightarrow> managed \<Rightarrow> bool \<times> managed" where
  "Managed_sendFirmware c data s =
     (if ms_target_name s = '''' then (False, s)
      else if ms_attack s \<noteq> '''' then (False, s)
      else if ms_target_length s < length data then (False, s\<lparr>ms_attack := ''overflow''\<rparr>)
      else if \<not> firmware_hashes_ok c data (ms_target_hashes s) then (False, s\<lparr>ms_attack := ''wrong_hash''\<rparr>)
      else storeFirmware (ms_target_name s) data (s\<lparr>ms_attack := ''''\<rparr>))"

definition getFirmwareInfo :: "crypto \<Rightarrow> managed \<Rightarrow> string \<times> nat \<times> string" where
  "getFirmwareInfo c s =
     (let (target_name, content) =
            (case (ms_target_name_file s, ms_firmware_file s) of
               (Some n, Some f) \<Rightarrow> (n, f)
             | _ \<Rightarrow> (''noimage'', ''''))
      in (target_name, length content, to_lower (sha256digest_hex c content)))"

text \<open>The manifest; \<open>sign\<close> stands for the RSA signature and its base64 text.\<close>

definition Managed_getManifest :: "crypto \<Rightarrow> (string \<Rightarrow> string) \<Rightarrow> managed \<Rightarrow> json" where
  "Managed_getManifest c sign s =
     (let (targetname, target_len, hash) = getFirmwareInfo c s;
          installed_image = JObject [(''fileinfo'', JObject [(''hashes'', JObject [(''sha256'', JString hash)]), (''length'', JInt (int target_len))]),
                                     (''filepath'', JString targetname)];
          manifest = JObject [(''attacks_detected'', JString (ms_attack s)), (''ecu_serial'', JString (ms_serial s)),
                              (''installed_image'', installed_image),
                              (''previous_timeserver_time'', JString ''1970-01-01T00:00:00Z''),
                              (''timeserver_time'', JString ''1970-01-01T00:00:00Z'')];
          signature = JObject [(''keyid'', JString (ms_keyid s)), (''method'', JString ''rsassa-pss''),
                               (''sig'', JString (sign (FastWriter_write c manifest)))]
      in JObject [(''signatures'', JArray [signature]), (''signed'', manifest)])"

section \<open>The secondary program\<close>

record secondary =
  sec_serial :: string
  sec_hardware_id :: string
  sec_root :: root
  sec_targets :: targets
  sec_attack :: string
  sec_target :: "target option"
  sec_db :: db

record secondary_env =
  readFileFromArchive :: "string \<Rightarrow> string \<Rightarrow> (exn, string) result"
  ostree_pull :: "string \<Rightarrow> target \<Rightarrow> bool"
  pacman_install :: "target \<Rightarrow> bool"

text \<open>The constructor: the root is the stored one, or one that accepts the first root it is given.\<close>

definition AktualizrSecondaryCommon_ctor :: "crypto \<Rightarrow> db \<Rightarrow> (exn, secondary) result" where
  "AktualizrSecondaryCommon_ctor c d =
     bindE (case loadRoot d kDirector (-1) of
              None \<Rightarrow> Inr (empty_root kAcceptAll)
            | Some raw \<Rightarrow> if 0 < length raw then Root_ctor c kDirector (parseJSON c raw) else Inr (empty_root kAcceptAll)) (\<lambda>r.
     Inr \<lparr>sec_serial = ''Unknown'', sec_hardware_id = ''Unknown'', sec_root = r, sec_targets = empty_targets, sec_attack = '''',
          sec_target = None, sec_db = d\<rparr>)"

text \<open>
  \<open>uptaneInitialize\<close> with the key id (empty when no key can be generated), the configured serial and hardware
  identifier and the host name.
\<close>

definition Secondary_uptaneInitialize :: "string \<Rightarrow> string \<Rightarrow> string \<Rightarrow> string \<Rightarrow> (secondary, bool) sx" where
  "Secondary_uptaneInitialize keyid conf_serial conf_hwid hostname s =
     (if keyid = '''' then (Inr False, s)
      else case loadEcuSerials (sec_db s) of
             Inl e \<Rightarrow> (Inl e, s)
           | Inr (Some serials) \<Rightarrow> (Inr True, s\<lparr>sec_serial := fst (serials ! 0), sec_hardware_id := snd (serials ! 0)\<rparr>)
           | Inr None \<Rightarrow>
               let serial = (if conf_serial = '''' then keyid else conf_serial);
                   hwid = (if conf_hwid = '''' then hostname else conf_hwid)
               in if hwid = '''' then (Inr False, s)
                  else case EcuSerial_ctor serial of
                         Inl e \<Rightarrow> (Inl e, s)
                       | Inr es \<Rightarrow>
                           (case HardwareIdentifier_ctor hwid of
                              Inl e \<Rightarrow> (Inl e, s)
                            | Inr hw \<Rightarrow>
                                (Inr True, s\<lparr>sec_db := storeEcuSerials (sec_db s) [(es, hw)], sec_serial := es, sec_hardware_id := hw\<rparr>)))"

text \<open>The loop over the targets; \<open>target_\<close> keeps its value when no target is for this ECU.\<close>

fun scan_own :: "string \<Rightarrow> target list \<Rightarrow> bool \<Rightarrow> string \<times> target option \<Rightarrow> string \<times> target option" where
  "scan_own serial [] target_found (attack, tgt) = (attack, tgt)"
| "scan_own serial (it # its) target_found (attack, tgt) =
     (if Target_IsForSecondary it serial then
        if target_found then (''Duplicate entry for this ECU'', tgt)
        else scan_own serial its True (attack, Some it)
      else scan_own serial its target_found (attack, tgt))"

definition putMetadataResp :: "crypto \<Rightarrow> raw_meta_pack \<Rightarrow> (secondary, bool) sx" where
  "putMetadataResp c pack s =
     (let s = s\<lparr>sec_attack := ''''\<rparr>
      in case Root_ctor_verified c kDirector (parseJSON c (raw_director_root pack)) (sec_root s) of
           Inl e \<Rightarrow> (Inl e, s)
         | Inr r \<Rightarrow>
             let s = s\<lparr>sec_root := r\<rparr>
             in (case Targets_ctor_verified c kDirector (parseJSON c (raw_director_targets pack)) (sec_root s) of
                   Inl e \<Rightarrow> (Inl e, s)
                 | Inr t \<Rightarrow>
                     if m_version (sec_targets s) > m_version t
                     then (Inr True, s\<lparr>sec_attack := ''Rollback attack detected''\<rparr>)
                     else
                       let (attack, tgt) = scan_own (sec_serial s) (tgt_targets t) False (sec_attack s, sec_target s);
                           d = storeRoot (sec_db s) (raw_director_root pack) kDirector (m_version r)
                       in (Inr True, s\<lparr>sec_targets := t, sec_attack := attack, sec_target := tgt,
                                       sec_db := storeNonRoot d (raw_director_targets pack) kDirector kTargets\<rparr>)))"

definition getRootVersionResp :: "crypto \<Rightarrow> bool \<Rightarrow> secondary \<Rightarrow> (exn, int) result" where
  "getRootVersionResp c director s =
     (case loadRoot (sec_db s) (if director then kDirector else kImage) (-1) of
        None \<Rightarrow> Inr (-1)
      | Some root_meta \<Rightarrow> extractVersionUntrusted c root_meta)"

definition extractCredentialsArchive :: "secondary_env \<Rightarrow> string \<Rightarrow> (exn, string \<times> string \<times> string \<times> string) result" where
  "extractCredentialsArchive e archive =
     bindE (readFileFromArchive e archive ''ca.pem'') (\<lambda>ca.
     bindE (readFileFromArchive e archive ''client.pem'') (\<lambda>cert.
     bindE (readFileFromArchive e archive ''pkey.pem'') (\<lambda>pkey.
     bindE (readFileFromArchive e archive ''server.url'') (\<lambda>server.
     Inr (ca, cert, pkey, server)))))"

text \<open>
  \<open>sendFirmwareResp\<close> of a build with OSTree.  The server that the archive names is replaced by the local variable
  \<open>server_url\<close>, which is empty.
\<close>

fun is_runtime_error :: "exn \<Rightarrow> bool" where
  "is_runtime_error (RuntimeError _) = True"
| "is_runtime_error _ = False"

definition sendFirmwareResp :: "secondary_env \<Rightarrow> string \<Rightarrow> (secondary, bool) sx" where
  "sendFirmwareResp e firmware s =
     (case sec_target s of
        None \<Rightarrow> (Inr False, s)
      | Some t \<Rightarrow>
          (case extractCredentialsArchive e firmware of
             Inl x \<Rightarrow> (if is_runtime_error x then Inr False else Inl x, s)
           | Inr (ca, cert, pkey, treehub_server) \<Rightarrow>
               let server_url = ''''; treehub_server = server_url
               in if \<not> Target_IsOstree t then (Inr False, s)
                  else if \<not> ostree_pull e treehub_server t then (Inr False, s)
                  else if \<not> pacman_install e t then (Inr False, s)
                  else (Inr True, s\<lparr>sec_db := saveInstalledVersion (sec_db s) (sec_serial s) t kCurrent\<rparr>)))"

section \<open>Partial verification inside of the primary\<close>

record partial_secondary =
  pv_serial :: string
  pv_root :: root
  pv_targets :: targets
  pv_attack :: string

definition PartialVerificationSecondary_ctor :: "string \<Rightarrow> partial_secondary" where
  "PartialVerificationSecondary_ctor serial =
     \<lparr>pv_serial = serial, pv_root = empty_root kAcceptAll, pv_targets = empty_targets, pv_attack = ''''\<rparr>"

definition Partial_putMetadata :: "crypto \<Rightarrow> raw_meta_pack \<Rightarrow> (partial_secondary, bool) sx" where
  "Partial_putMetadata c pack s =
     (let s = s\<lparr>pv_attack := ''''\<rparr>
      in case Root_ctor_verified c kDirector (parseJSON c (raw_director_root pack)) (pv_root s) of
           Inl e \<Rightarrow> (Inl e, s)
         | Inr r \<Rightarrow>
             let s = s\<lparr>pv_root := r\<rparr>
             in (case Targets_ctor_verified c kDirector (parseJSON c (raw_director_targets pack)) (pv_root s) of
                   Inl e \<Rightarrow> (Inl e, s)
                 | Inr t \<Rightarrow>
                     if m_version (pv_targets s) > m_version t
                     then (Inr True, s\<lparr>pv_attack := ''Rollback attack detected''\<rparr>)
                     else (Inr True, s\<lparr>pv_targets := t,
                                       pv_attack := fst (scan_own (pv_serial s) (tgt_targets t) False (pv_attack s, None))\<rparr>)))"

section \<open>Receivers of verified metadata\<close>

text \<open>A root that is reached by steps each of which the old and the new root accept.\<close>

inductive signed_chain :: "crypto \<Rightarrow> root \<Rightarrow> root \<Rightarrow> bool" for c where
  signed_refl: "signed_chain c r r"
| signed_step: "signed_chain c r r1 \<Longrightarrow> Root_ctor c kDirector json = Inr r2 \<Longrightarrow>
    UnpackSignedObject c r1 kDirector json = Inr () \<Longrightarrow> UnpackSignedObject c r2 kDirector json = Inr () \<Longrightarrow> signed_chain c r r2"

text \<open>Targets that are signed under such a root.\<close>

definition trusted_targets :: "crypto \<Rightarrow> root \<Rightarrow> targets \<Rightarrow> bool" where
  "trusted_targets c r0 ts \<longleftrightarrow>
     (\<exists>r. signed_chain c r0 r \<and> threshold_met c r (m_original ts) kTargets \<and> Targets_ctor (m_original ts) = Inr ts)"

locale meta_receiver =
  fixes c :: crypto
    and step :: "'e \<Rightarrow> 's \<Rightarrow> 's"
    and root_of :: "'s \<Rightarrow> root"
    and targets_of :: "'s \<Rightarrow> targets"
  assumes step_root: "root_of (step e s) = root_of s \<or>
      (\<exists>json. Root_ctor c kDirector json = Inr (root_of (step e s)) \<and> UnpackSignedObject c (root_of s) kDirector json = Inr () \<and>
         UnpackSignedObject c (root_of (step e s)) kDirector json = Inr ())"
    and step_targets: "targets_of (step e s) = targets_of s \<or>
      (m_version (targets_of s) \<le> m_version (targets_of (step e s)) \<and> r_policy (root_of (step e s)) = kCheck \<and>
       (\<exists>json. Targets_ctor_verified c kDirector json (root_of (step e s)) = Inr (targets_of (step e s))))"
begin

lemma run_root: "signed_chain c (root_of s) (root_of (fold step es s))"
proof (induction es rule: rev_induct)
  case (snoc e es)
  then show ?case using step_root [of e "fold step es s"] signed_step by fastforce
qed (simp add: signed_refl)

lemma run_version: "m_version (targets_of s) \<le> m_version (targets_of (fold step es s))"
proof (induction es rule: rev_induct)
  case (snoc e es)
  then show ?case using step_targets [of e "fold step es s"] by auto
qed simp

lemma run_targets: "targets_of (fold step es s) = targets_of s \<or> trusted_targets c (root_of s) (targets_of (fold step es s))"
proof (induction es rule: rev_induct)
  case (snoc e es)
  let ?s = "fold step es s" and ?s' = "fold step (es @ [e]) s"
  consider "targets_of ?s' = targets_of ?s"
    | json where "r_policy (root_of ?s') = kCheck" "Targets_ctor_verified c kDirector json (root_of ?s') = Inr (targets_of ?s')"
    using step_targets [of e ?s] by auto
  then show ?case
  proof cases
    case 2
    from Targets_ctor_verified_Inr [OF 2(2,1)] run_root [of s "es @ [e]"]
    have "trusted_targets c (root_of s) (targets_of ?s')" unfolding trusted_targets_def by metis
    then show ?thesis ..
  qed (use snoc in simp)
qed simp

end

section \<open>The secondary program as a receiver\<close>

datatype sec_event = PutMetadata raw_meta_pack | SendFirmware string

fun sec_step :: "crypto \<Rightarrow> secondary_env \<Rightarrow> sec_event \<Rightarrow> secondary \<Rightarrow> secondary" where
  "sec_step c e (PutMetadata pack) s = snd (putMetadataResp c pack s)"
| "sec_step c e (SendFirmware data) s = snd (sendFirmwareResp e data s)"

lemma sendFirmwareResp_frame:
  "sec_root (snd (sendFirmwareResp e data s)) = sec_root s \<and> sec_targets (snd (sendFirmwareResp e data s)) = sec_targets s \<and>
   sec_target (snd (sendFirmwareResp e data s)) = sec_target s \<and> sec_serial (snd (sendFirmwareResp e data s)) = sec_serial s"
  by (simp add: sendFirmwareResp_def Let_def split: option.splits sum.splits)

lemma putMetadataResp_cases:
  obtains (none) "sec_root (snd (putMetadataResp c pack s)) = sec_root s" "sec_targets (snd (putMetadataResp c pack s)) = sec_targets s"
      "sec_target (snd (putMetadataResp c pack s)) = sec_target s" "sec_serial (snd (putMetadataResp c pack s)) = sec_serial s"
  | (new_root) r where "Root_ctor_verified c kDirector (parseJSON c (raw_director_root pack)) (sec_root s) = Inr r"
      "sec_root (snd (putMetadataResp c pack s)) = r" "sec_targets (snd (putMetadataResp c pack s)) = sec_targets s"
      "sec_target (snd (putMetadataResp c pack s)) = sec_target s" "sec_serial (snd (putMetadataResp c pack s)) = sec_serial s"
  | (new_targets) r t where "Root_ctor_verified c kDirector (parseJSON c (raw_director_root pack)) (sec_root s) = Inr r"
      "Targets_ctor_verified c kDirector (parseJSON c (raw_director_targets pack)) r = Inr t"
      "m_version (sec_targets s) \<le> m_version t"
      "sec_root (snd (putMetadataResp c pack s)) = r" "sec_targets (snd (putMetadataResp c pack s)) = t"
      "sec_target (snd (putMetadataResp c pack s)) = snd (scan_own (sec_serial s) (tgt_targets t) False ('''', sec_target s))"
      "sec_serial (snd (putMetadataResp c pack s)) = sec_serial s"
proof (cases "Root_ctor_verified c kDirector (parseJSON c (raw_director_root pack)) (sec_root s)")
  case (Inl x)
  then show ?thesis using none by (simp add: putMetadataResp_def)
next
  case r: (Inr r)
  show ?thesis
  proof (cases "Targets_ctor_verified c kDirector (parseJSON c (raw_director_targets pack)) r")
    case (Inl x)
    then show ?thesis using new_root r by (simp add: putMetadataResp_def)
  next
    case (Inr t)
    then show ?thesis using new_root new_targets r
      by (cases "m_version (sec_targets s) > m_version t") (simp_all add: putMetadataResp_def split_beta)
  qed
qed

lemma Root_ctor_policy: "Root_ctor c repo json = Inr r \<Longrightarrow> r_policy r = kCheck"
  using Root_ctor_wf(1) [of c repo json r] by (simp add: Root_wf_def)

interpretation sec: meta_receiver c "sec_step c e" sec_root sec_targets for c e
proof (unfold_locales, goal_cases)
  case (1 ev s)
  show ?case
  proof (cases ev)
    case (PutMetadata pack)
    then show ?thesis by (cases rule: putMetadataResp_cases [of c pack s]) (auto dest: Root_ctor_verified_Inr)
  qed (simp add: sendFirmwareResp_frame)
next
  case (2 ev s)
  show ?case
  proof (cases ev)
    case (PutMetadata pack)
    then show ?thesis
      by (cases rule: putMetadataResp_cases [of c pack s]) (auto dest!: Root_ctor_verified_Inr(1) intro: Root_ctor_policy)
  qed (simp add: sendFirmwareResp_frame)
qed

interpretation pv: meta_receiver c "\<lambda>pack s. snd (Partial_putMetadata c pack s)" pv_root pv_targets for c
proof (unfold_locales, goal_cases)
  case (1 pack s)
  show ?case
    by (auto simp: Partial_putMetadata_def Let_def split: sum.splits dest: Root_ctor_verified_Inr)
next
  case (2 pack s)
  show ?case
    by (auto simp: Partial_putMetadata_def Let_def split: sum.splits dest!: Root_ctor_verified_Inr(1) intro: Root_ctor_policy)
qed

lemma scan_own_target:
  "snd (scan_own serial ts found (a, tgt)) = tgt \<or>
   (\<exists>t \<in> set ts. snd (scan_own serial ts found (a, tgt)) = Some t \<and> Target_IsForSecondary t serial)"
proof (induction ts arbitrary: found a tgt)
  case (Cons t ts)
  then show ?case using Cons [of True a "Some t"] Cons [of found a tgt] by auto
qed simp

lemma sec_step_target:
  "sec_serial (sec_step c e ev s) = sec_serial s \<and>
   (sec_target (sec_step c e ev s) = sec_target s \<or>
    (\<exists>t. sec_target (sec_step c e ev s) = Some t \<and> t \<in> set (tgt_targets (sec_targets (sec_step c e ev s))) \<and>
       Target_IsForSecondary t (sec_serial s) \<and> r_policy (sec_root (sec_step c e ev s)) = kCheck \<and>
       (\<exists>json. Targets_ctor_verified c kDirector json (sec_root (sec_step c e ev s)) = Inr (sec_targets (sec_step c e ev s)))))"
proof (cases ev)
  case (PutMetadata pack)
  show ?thesis
  proof (cases rule: putMetadataResp_cases [of c pack s])
    case (new_targets r t)
    with scan_own_target [of "sec_serial s" "tgt_targets t" False "''''" "sec_target s"] Root_ctor_verified_Inr(1) [OF new_targets(1)]
    show ?thesis by (auto simp: PutMetadata intro: Root_ctor_policy)
  qed (simp_all add: PutMetadata)
qed (simp add: sendFirmwareResp_frame)

section \<open>Properties\<close>

text \<open>
  C39.  Whatever sequence of metadata and firmware messages the secondary program receives, its root is reached
  by steps that the old and the new root accept, the version of its targets never decreases, and the target it
  would install is the one it started with or is listed, for this ECU, in targets metadata that a root of this
  chain accepts.
\<close>

theorem secondary_installs_trusted_targets:
  "let s' = fold (sec_step c e) evs s
   in signed_chain c (sec_root s) (sec_root s') \<and> m_version (sec_targets s) \<le> m_version (sec_targets s') \<and>
      (sec_target s' = sec_target s \<or>
       (\<exists>t ts. sec_target s' = Some t \<and> t \<in> set (tgt_targets ts) \<and> Target_IsForSecondary t (sec_serial s) \<and>
          trusted_targets c (sec_root s) ts))"
proof -
  have "sec_serial (fold (sec_step c e) evs s) = sec_serial s \<and> (sec_target (fold (sec_step c e) evs s) = sec_target s \<or>
    (\<exists>t ts. sec_target (fold (sec_step c e) evs s) = Some t \<and> t \<in> set (tgt_targets ts) \<and> Target_IsForSecondary t (sec_serial s) \<and>
       trusted_targets c (sec_root s) ts))"
  proof (induction evs rule: rev_induct)
    case (snoc ev evs)
    let ?s = "fold (sec_step c e) evs s" and ?s' = "fold (sec_step c e) (evs @ [ev]) s"
    have ss: "?s' = sec_step c e ev ?s" by simp
    note st = sec_step_target [of c e ev ?s, folded ss]
    show ?case
    proof (cases "sec_target ?s' = sec_target ?s")
      case True
      with snoc st show ?thesis by metis
    next
      case False
      with st obtain t json where t: "sec_target ?s' = Some t" "t \<in> set (tgt_targets (sec_targets ?s'))"
        "Target_IsForSecondary t (sec_serial ?s)" "r_policy (sec_root ?s') = kCheck"
        "Targets_ctor_verified c kDirector json (sec_root ?s') = Inr (sec_targets ?s')" by metis
      from Targets_ctor_verified_Inr [OF t(5,4)] sec.run_root [of c s e "evs @ [ev]"]
      have "trusted_targets c (sec_root s) (sec_targets ?s')" unfolding trusted_targets_def by metis
      with t snoc st show ?thesis by metis
    qed
  qed simp
  then show ?thesis using sec.run_root [of c s e evs] sec.run_version [of s c e evs] by (simp add: Let_def)
qed

lemma firmware_hashes_okD:
  assumes "firmware_hashes_ok c data hs" and "h \<in> set hs"
  shows "(h_type h = kSha256 \<longrightarrow> to_lower (sha256digest_hex c data) = to_lower (h_value h)) \<and>
    (h_type h = kSha512 \<longrightarrow> to_lower (sha512digest_hex c data) = to_lower (h_value h))"
  using assms
proof (induction c data hs rule: firmware_hashes_ok.induct)
  case (2 c data it its)
  have "Hash_TypeString it = hash_type_string (h_type it)" by (simp add: Hash_TypeString_def)
  with 2 show ?case by (cases "h_type it") (auto split: if_splits)
qed simp

lemma expect_target_found:
  "ms_attack (snd (expect_target ts True s)) = '''' \<Longrightarrow>
   filter (\<lambda>t. map_of (t_ecus t) (ms_serial s) \<noteq> None) ts = [] \<and> expect_target ts True s = (True, s)"
  by (induction ts) (auto split: if_splits)

lemma expect_target_unique:
  assumes "expect_target ts False s = (True, s')" and "ms_attack s' = ''''"
  shows "\<exists>t. filter (\<lambda>t. map_of (t_ecus t) (ms_serial s) \<noteq> None) ts = [t] \<and>
    s' = s\<lparr>ms_target_name := t_filename t, ms_target_hashes := t_hashes t, ms_target_length := t_length t\<rparr>"
  using assms
proof (induction ts)
  case (Cons t ts)
  show ?case
  proof (cases "map_of (t_ecus t) (ms_serial s) = None")
    case False
    let ?s = "s\<lparr>ms_target_name := t_filename t, ms_target_hashes := t_hashes t, ms_target_length := t_length t\<rparr>"
    from False Cons.prems have e: "expect_target ts True ?s = (True, s')" by auto
    with expect_target_found [of ts ?s] Cons.prems(2) False show ?thesis by auto
  qed (use Cons in auto)
qed simp

lemma rawToMeta_director:
  assumes "rawToMeta c s = (Inr (), s')"
  shows "Root_ctor c kDirector (parseJSON c (raw_director_root (ms_raw s))) = Inr (mp_director_root (ms_meta s'))"
    and "Targets_ctor (parseJSON c (raw_director_targets (ms_raw s))) = Inr (mp_director_targets (ms_meta s'))"
    and "ms_serial s' = ms_serial s" and "ms_attack s' = ms_attack s"
  using assms unfolding rawToMeta_def by (auto simp: bindS_eq result_simps)

lemma constructed_not_null:
  "Root_ctor c repo json = Inr r \<Longrightarrow> m_original r \<noteq> JNull" "Targets_ctor json = Inr t \<Longrightarrow> m_original t \<noteq> JNull"
  using Root_ctor_wf(2) [of c repo json r]
  by (auto simp: Root_ctor_def Targets_ctor_def BaseMeta_init_def has_signed_def bindE_Inr_iff Targets_init_def basemeta.defs split: if_splits)

lemma isConsistent_signed:
  assumes "MetaPack_isConsistent c r t = Inr True" and "m_original r \<noteq> JNull" and "m_original t \<noteq> JNull" and "r_policy r = kCheck"
  shows "threshold_met c r (m_original t) kTargets"
proof -
  from assms(1-3) obtain t' where "Targets_ctor_verified c kDirector (m_original t) r = Inr t'"
    by (auto simp: MetaPack_isConsistent_def bindE_Inr_iff split: sum.splits if_splits)
  from Targets_ctor_verified_Inr(1) [OF this assms(4)] show ?thesis .
qed

text \<open>
  C34.  When a managed secondary takes a metadata pack and then firmware, exactly one target of the director's
  targets is for this ECU, the targets are signed for their role with the keys of the director's root, the
  firmware is not longer than the target and has its digests, and the secondary reports the target's name with the
  length and the digest of the firmware.
\<close>

theorem managed_firmware_checked:
  assumes put: "Managed_putMetadata c pack s = (Inr True, s1)"
    and send: "Managed_sendFirmware c data s1 = (True, s2)"
  shows "\<exists>t ts. ts = mp_director_targets (ms_meta s1) \<and>
    filter (\<lambda>t. map_of (t_ecus t) (ms_serial s) \<noteq> None) (tgt_targets ts) = [t] \<and>
    threshold_met c (mp_director_root (ms_meta s1)) (m_original ts) kTargets \<and>
    length data \<le> t_length t \<and>
    (\<forall>h \<in> set (t_hashes t). (h_type h = kSha256 \<longrightarrow> to_lower (sha256digest_hex c data) = to_lower (h_value h)) \<and>
       (h_type h = kSha512 \<longrightarrow> to_lower (sha512digest_hex c data) = to_lower (h_value h))) \<and>
    getFirmwareInfo c s2 = (t_filename t, length data, to_lower (sha256digest_hex c data))"
proof -
  let ?s0 = "s\<lparr>ms_attack := '''', ms_raw := pack\<rparr>"
  from put obtain sa where raw: "rawToMeta c ?s0 = (Inr (), sa)"
    and cons: "MetaPack_isConsistent c (mp_director_root (ms_meta sa)) (mp_director_targets (ms_meta sa)) = Inr True"
    and s1: "s1 = (let s = sa\<lparr>ms_target_name := '''', ms_target_hashes := [], ms_target_length := 0\<rparr>;
              (target_found, s) = expect_target (tgt_targets (mp_director_targets (ms_meta s))) False s
          in if \<not> target_found then s\<lparr>ms_attack := ''No update for this ECU''\<rparr> else s)"
    by (auto simp: Managed_putMetadata_def is_consistent_def bindS_eq checkS_True result_simps)
  note d = rawToMeta_director [OF raw]
  let ?se = "sa\<lparr>ms_target_name := '''', ms_target_hashes := [], ms_target_length := 0\<rparr>" and ?ts = "mp_director_targets (ms_meta sa)"
  obtain f sb where ex: "expect_target (tgt_targets ?ts) False ?se = (f, sb)" by (cases "expect_target (tgt_targets ?ts) False ?se")
  from send have a: "ms_attack s1 = ''''" and ok: "\<not> ms_target_length s1 < length data" "firmware_hashes_ok c data (ms_target_hashes s1)"
    and s2: "s2 = s1\<lparr>ms_attack := '''', ms_target_name_file := Some (ms_target_name s1), ms_firmware_file := Some data\<rparr>"
    by (auto simp: Managed_sendFirmware_def storeFirmware_def split: if_splits)
  from a s1 ex have f: "f" and sb: "s1 = sb" by (auto split: if_splits)
  with ex expect_target_unique [of "tgt_targets ?ts" ?se sb] a obtain t where
    t: "filter (\<lambda>t. map_of (t_ecus t) (ms_serial ?se) \<noteq> None) (tgt_targets ?ts) = [t]"
    "s1 = ?se\<lparr>ms_target_name := t_filename t, ms_target_hashes := t_hashes t, ms_target_length := t_length t\<rparr>" by auto
  from constructed_not_null(1) [OF d(1)] constructed_not_null(2) [OF d(2)] Root_ctor_policy [OF d(1)] isConsistent_signed [OF cons]
  have "threshold_met c (mp_director_root (ms_meta sa)) (m_original ?ts) kTargets" by blast
  moreover have "\<forall>h \<in> set (t_hashes t). (h_type h = kSha256 \<longrightarrow> to_lower (sha256digest_hex c data) = to_lower (h_value h)) \<and>
       (h_type h = kSha512 \<longrightarrow> to_lower (sha512digest_hex c data) = to_lower (h_value h))"
    using ok(2) t(2) firmware_hashes_okD by simp
  ultimately show ?thesis using t ok(1) d(3) s2 by (intro exI [of _ t] exI [of _ ?ts]) (simp add: getFirmwareInfo_def)
qed

definition sample_pack :: raw_meta_pack where
  "sample_pack = \<lparr>raw_director_root = ''root1'', raw_director_targets = ''targets1'', raw_image_root = ''root1'',
     raw_image_targets = ''targets1'', raw_image_timestamp = ''timestamp1'', raw_image_snapshot = ''snapshot1''\<rparr>"

definition sample_managed :: managed where
  "sample_managed = \<lparr>ms_serial = ''ecu1'', ms_keyid = ''k'', ms_attack = '''', ms_target_name = '''', ms_target_hashes = [], ms_target_length = 0,
     ms_meta = \<lparr>mp_director_root = empty_root kAcceptAll, mp_director_targets = empty_targets, mp_image_root = empty_root kAcceptAll,
       mp_image_targets = empty_targets, mp_image_timestamp = empty_timestamp, mp_image_snapshot = empty_snapshot\<rparr>,
     ms_raw = sample_pack, ms_target_name_file = None, ms_firmware_file = None\<rparr>"

lemma sample_managed_run:
  "case Managed_putMetadata sample_crypto sample_pack sample_managed of
     (r, s1) \<Rightarrow> r = Inr True \<and> fst (Managed_sendFirmware sample_crypto ''ab'' s1)"
  by code_simp

theorem managed_firmware_checked_witness:
  "\<exists>s1 s2. Managed_putMetadata sample_crypto sample_pack sample_managed = (Inr True, s1) \<and>
     Managed_sendFirmware sample_crypto ''ab'' s1 = (True, s2) \<and> snd (snd (getFirmwareInfo sample_crypto s2)) = to_lower ''ab''"
proof -
  obtain s1 where s1: "Managed_putMetadata sample_crypto sample_pack sample_managed = (Inr True, s1)"
    and ok: "fst (Managed_sendFirmware sample_crypto ''ab'' s1)"
    using sample_managed_run by (auto split: prod.splits)
  obtain s2 where s2: "Managed_sendFirmware sample_crypto ''ab'' s1 = (True, s2)" using ok by (metis fst_conv surj_pair)
  from managed_firmware_checked [OF s1 s2] s1 s2 show ?thesis by (auto simp: sample_crypto_def)
qed

text \<open>The secondary program downloads from the server with the empty name, whatever server the archive names.\<close>

lemma firmware_server_ignored:
  assumes "sec_target s = Some t" and "\<not> ostree_pull e '''' t"
  shows "fst (sendFirmwareResp e firmware s) \<noteq> Inr True"
  using assms by (auto simp: sendFirmwareResp_def Let_def split: sum.splits)

text \<open>A target for this ECU without a hash of a known type lets any firmware of its length pass.\<close>

lemma unhashed_firmware_accepted:
  assumes "ms_target_name s \<noteq> ''''" and "ms_attack s = ''''" and "ms_target_hashes s = []" and "length data \<le> ms_target_length s"
  shows "fst (Managed_sendFirmware c data s)"
  using assms by (simp add: Managed_sendFirmware_def storeFirmware_def)

end
