(* ===== verification/Uptiny_Utils.thy ===== *)
theory Uptiny_Utils
  imports Prelude "HOL-Library.Signed_Division"
begin

text \<open>
  The text conversions of the partial-verification client (\<open>partial/libuptiny\<close>): hexadecimal and
  decimal numbers (\<open>utils.c\<close>), time stamps (\<open>utils.c\<close>, \<open>uptane_time.c\<close>) and the look-up of a key by its
  hexadecimal id (\<open>crypto_common.c\<close>).  Bytes are 8-bit words; a text argument with its length is the
  list of its characters, and an output buffer is a list that is updated by index.
\<close>

type_synonym byte = "8 word"

unbundle bit_operations_syntax

section \<open>Hexadecimal numbers\<close>

definition is_hex :: "char \<Rightarrow> bool" where
  "is_hex c = (let n = of_char c :: nat
               in (48 \<le> n \<and> n \<le> 57) \<or> (65 \<le> n \<and> n \<le> 70) \<or> (97 \<le> n \<and> n \<le> 102))"

definition from_hex :: "char \<Rightarrow> byte" where
  "from_hex symb =
     (let n = of_char symb :: nat
      in if 48 \<le> n \<and> n \<le> 57 then of_nat n - 48
         else if 65 \<le> n \<and> n \<le> 70 then of_nat n - 65 + 10
         else of_nat n - 97 + 10)"

primrec hex2bin_loop :: "string \<Rightarrow> nat \<Rightarrow> byte list \<Rightarrow> bool \<times> byte list" where
  "hex2bin_loop [] i bin_data = (True, bin_data)"
| "hex2bin_loop (symb # rest) i bin_data =
     (if \<not> is_hex symb then (False, bin_data)
      else if odd i then hex2bin_loop rest (i + 1) (bin_data[i div 2 := bin_data ! (i div 2) OR from_hex symb])
      else hex2bin_loop rest (i + 1) (bin_data[i div 2 := push_bit 4 (from_hex symb)]))"

definition hex2bin :: "string \<Rightarrow> byte list \<Rightarrow> bool \<times> byte list" where
  "hex2bin hex_string bin_data = hex2bin_loop hex_string 0 bin_data"

definition to_hex :: "byte \<Rightarrow> char" where
  "to_hex nibble = (if nibble \<le> 9 then char_of (48 + unat nibble) else char_of (97 + unat nibble - 10))"

fun bin2hex :: "byte list \<Rightarrow> string" where
  "bin2hex [] = [CHR 0x00]"
| "bin2hex (b # bs) = to_hex (drop_bit 4 b) # to_hex (b AND 0x0F) # bin2hex bs"

primrec hex_bin_cmp_loop :: "string \<Rightarrow> nat \<Rightarrow> byte \<Rightarrow> byte list \<Rightarrow> int" where
  "hex_bin_cmp_loop [] i byte bin_data = 0"
| "hex_bin_cmp_loop (symb # rest) i byte bin_data =
     (if \<not> is_hex symb then -1
      else if odd i then
        (let byte' = byte OR from_hex symb
         in if byte' < bin_data ! (i div 2) then -1
            else if byte' > bin_data ! (i div 2) then 1
            else hex_bin_cmp_loop rest (i + 1) byte' bin_data)
      else hex_bin_cmp_loop rest (i + 1) (push_bit 4 (from_hex symb)) bin_data)"

definition hex_bin_cmp :: "string \<Rightarrow> byte list \<Rightarrow> int" where
  "hex_bin_cmp hex_string bin_data = hex_bin_cmp_loop hex_string 0 0 bin_data"

section \<open>Decimal numbers\<close>

text \<open>
  The accumulator is a 32-bit signed integer.  Signed overflow is undefined in C; here it wraps, as the
  target's arithmetic does.
\<close>

primrec dec2int_loop :: "string \<Rightarrow> 32 word \<Rightarrow> 32 word option" where
  "dec2int_loop [] res = Some res"
| "dec2int_loop (c # cs) res =
     (let n = of_char c :: nat
      in if n < 48 \<or> 57 < n then None else dec2int_loop cs (res * 10 + (of_nat n - 48)))"

definition dec2int :: "string \<Rightarrow> nat \<Rightarrow> int option" where
  "dec2int dec_string dec_len =
     (let neg = (hd dec_string = CHR ''-'')
      in case dec2int_loop (drop (if neg then 1 else 0) (take dec_len dec_string)) 0 of
           None \<Rightarrow> None
         | Some res \<Rightarrow> Some (sint (if neg then - res else res)))"

text \<open>
  \<open>int2dec\<close> writes the digits in reverse and then swaps them in place.  C's \<open>%\<close> and \<open>/\<close> round
  towards zero.
\<close>

function int2dec_digits :: "int \<Rightarrow> string" where
  "int2dec_digits num =
     (if num = 0 then []
      else char_of (nat ((48 + num smod 10) mod 256)) # int2dec_digits (num sdiv 10))"
  by pat_completeness auto
termination
  by (relation "measure (\<lambda>n. nat \<bar>n\<bar>)") (auto simp: signed_divide_int_def abs_mult sgn_if)

declare int2dec_digits.simps [simp del]

function swap_loop :: "nat \<Rightarrow> nat \<Rightarrow> nat \<Rightarrow> string \<Rightarrow> string" where
  "swap_loop i first_digit last_digit s =
     (if i < (last_digit + 1) div 2
      then let c = s ! (first_digit + i);
               s1 = s[first_digit + i := s ! (last_digit - i)];
               s2 = s1[last_digit - i := c]
           in swap_loop (i + 1) first_digit last_digit s2
      else s)"
  by pat_completeness auto
termination
  by (relation "measure (\<lambda>(i, f, l, s). (l + 1) div 2 - i)") auto

declare swap_loop.simps [simp del]

definition int2dec :: "32 word \<Rightarrow> string" where
  "int2dec num =
     (let n = sint num
      in if n = 0 then ''0'' @ [CHR 0x00]
         else
           let first_digit = (if n < 0 then 1 else 0);
               n' = (if n < 0 then sint (- num) else n);
               dec_string = (if n < 0 then ''-'' else '''') @ int2dec_digits n'
           in swap_loop 0 first_digit (length dec_string - 1) dec_string @ [CHR 0x00])"

section \<open>Time stamps\<close>

record uptane_time =
  year :: "16 word"
  month :: byte
  day :: byte
  hour :: byte
  minute :: byte
  second :: byte

definition uptane_time_greater :: "uptane_time \<Rightarrow> uptane_time \<Rightarrow> bool" where
  "uptane_time_greater l r =
     (if year l \<noteq> year r then year l > year r
      else if month l \<noteq> month r then month l > month r
      else if day l \<noteq> day r then day l > day r
      else if hour l \<noteq> hour r then hour l > hour r
      else if minute l \<noteq> minute r then minute l > minute r
      else second l > second r)"

text \<open>A field of \<open>str2time\<close>: \<open>len\<close> decimal digits at an offset, below a bound.\<close>

definition time_field :: "string \<Rightarrow> nat \<Rightarrow> nat \<Rightarrow> int \<Rightarrow> int option" where
  "time_field s offset len bound =
     (case dec2int (drop offset s) len of
        None \<Rightarrow> None
      | Some num \<Rightarrow> if num < 0 \<or> bound \<le> num then None else Some num)"

definition str2time :: "string \<Rightarrow> uptane_time option" where
  "str2time s =
     (if length s \<noteq> 20 then None
      else
        Option.bind (time_field s 0 4 (2 ^ 16)) (\<lambda>y.
        Option.bind (time_field s 5 2 (2 ^ 8)) (\<lambda>mo.
        Option.bind (time_field s 8 2 (2 ^ 8)) (\<lambda>d.
        Option.bind (time_field s 11 2 (2 ^ 8)) (\<lambda>h.
        Option.bind (time_field s 14 2 (2 ^ 8)) (\<lambda>mi.
        Option.bind (time_field s 17 2 (2 ^ 8)) (\<lambda>sec.
        Some \<lparr>year = word_of_int y, month = word_of_int mo, day = word_of_int d,
              hour = word_of_int h, minute = word_of_int mi, second = word_of_int sec\<rparr>)))))))"

section \<open>Keys\<close>

definition CRYPTO_KEYID_LEN :: nat where "CRYPTO_KEYID_LEN = 32"

datatype crypto_algorithm = CRYPTO_ALG_UNKNOWN | CRYPTO_ALG_ED25519

record crypto_key =
  k_type :: crypto_algorithm
  k_id :: "byte list"
  k_val :: "byte list"

definition find_key :: "string \<Rightarrow> crypto_key list \<Rightarrow> crypto_key option" where
  "find_key key_id keys =
     (if length key_id \<noteq> CRYPTO_KEYID_LEN * 2 then None
      else find (\<lambda>k. hex_bin_cmp key_id (k_id k) = 0) keys)"

section \<open>Facts about hexadecimal numbers\<close>

lemma nibble_round_trip:
  assumes "n < (16 :: byte)"
  shows "is_hex (to_hex n)" and "from_hex (to_hex n) = n"
proof -
  define m where "m = unat n"
  have m: "m < 16" and n: "n = of_nat m"
    using assms by (simp_all add: m_def word_less_nat_alt)
  have le: "n \<le> 9 \<longleftrightarrow> m \<le> 9" by (simp add: m_def word_le_nat_alt)
  have "of_char (to_hex n) = (if m \<le> 9 then 48 + m else 87 + m)"
    using m by (simp add: to_hex_def le m_def [symmetric])
  then show "is_hex (to_hex n)" and "from_hex (to_hex n) = n"
    using m by (auto simp: is_hex_def from_hex_def Let_def n)
qed

lemma high_nibble_less [byte_simps]: "drop_bit 4 (b :: byte) < 16"
proof -
  have "unat b < 2 ^ LENGTH(8)" by (rule unsigned_less)
  then show ?thesis by (simp add: word_less_nat_alt drop_bit_eq_div unat_div)
qed

lemma low_nibble_less [byte_simps]: "(b :: byte) AND 0x0F < 16"
  using word_and_le1 [of b "0x0F"] by (auto simp: word_le_nat_alt word_less_nat_alt)

lemma nibbles_join [byte_simps]: "push_bit 4 (drop_bit 4 b) OR (b AND 0x0F) = (b :: byte)"
proof (rule bit_word_eqI)
  fix n
  assume "n < LENGTH(8)"
  then have "n < 8" by simp
  consider "n = 0" | "n = 1" | "n = 2" | "n = 3" | "4 \<le> n" by fastforce
  then show "bit (push_bit 4 (drop_bit 4 b) OR (b AND 0x0F)) n = bit b n"
    using \<open>n < 8\<close> by cases (auto simp: bit_simps)
qed

text \<open>The digits that \<open>bin2hex\<close> writes, and the bytes that a text of hexadecimal digits denotes.\<close>

definition hex_digits :: "byte list \<Rightarrow> string" where
  "hex_digits bs = concat (map (\<lambda>b. [to_hex (drop_bit 4 b), to_hex (b AND 0x0F)]) bs)"

fun hex_value :: "string \<Rightarrow> byte list" where
  "hex_value (a # b # cs) = (push_bit 4 (from_hex a) OR from_hex b) # hex_value cs"
| "hex_value _ = []"

lemma bin2hex_digits: "bin2hex bs = hex_digits bs @ [CHR 0x00]"
  by (induction bs) (simp_all add: hex_digits_def)

lemma length_hex_digits [simp]: "length (hex_digits bs) = 2 * length bs"
  by (induction bs) (simp_all add: hex_digits_def)

lemma hex_digits_is_hex: "\<forall>c \<in> set (hex_digits bs). is_hex c"
  by (induction bs) (auto simp: hex_digits_def nibble_round_trip byte_simps)

lemma hex_value_digits [simp]: "hex_value (hex_digits bs) = bs"
  by (induction bs) (simp_all add: hex_digits_def nibble_round_trip byte_simps)

lemma length_hex_value [simp]: "length (hex_value s) = length s div 2"
  by (induction s rule: hex_value.induct) auto

lemma hex2bin_loop_value:
  assumes "\<forall>c \<in> set s. is_hex c" and "even (length s)" and "length s div 2 \<le> length buf"
  shows "hex2bin_loop s (2 * length pre) (pre @ buf) =
    (True, pre @ hex_value s @ drop (length s div 2) buf)"
  using assms
proof (induction s arbitrary: pre buf rule: hex_value.induct)
  case (1 a b cs)
  then obtain x rest where buf: "buf = x # rest" by (cases buf) auto
  have "hex2bin_loop (a # b # cs) (2 * length pre) (pre @ buf) =
      hex2bin_loop cs (2 * length (pre @ [push_bit 4 (from_hex a) OR from_hex b]))
        ((pre @ [push_bit 4 (from_hex a) OR from_hex b]) @ rest)"
    using 1(2) by (simp add: buf)
  also have "\<dots> = (True, (pre @ [push_bit 4 (from_hex a) OR from_hex b]) @ hex_value cs @ drop (length cs div 2) rest)"
    using 1 by (intro 1(1)) (auto simp: buf)
  finally show ?case by (simp add: buf)
qed auto

lemma hex_bin_cmp_loop_zero:
  assumes "even (length s)" and "length s div 2 \<le> length buf"
  shows "hex_bin_cmp_loop s (2 * length pre) byte (pre @ buf) = 0 \<longleftrightarrow>
    (\<forall>c \<in> set s. is_hex c) \<and> hex_value s = take (length s div 2) buf"
  using assms
proof (induction s arbitrary: pre buf byte rule: hex_value.induct)
  case (1 a b cs)
  then obtain x rest where buf: "buf = x # rest" by (cases buf) auto
  let ?v = "push_bit 4 (from_hex a) OR from_hex b"
  have IH: "hex_bin_cmp_loop cs (2 * length (pre @ [x])) byte' ((pre @ [x]) @ rest) = 0 \<longleftrightarrow>
      (\<forall>c \<in> set cs. is_hex c) \<and> hex_value cs = take (length cs div 2) rest" for byte'
    using 1(2,3) by (intro 1(1)) (auto simp: buf)
  show ?case
    using IH [of ?v] by (auto simp: buf Let_def)
qed auto

lemma hex_bin_cmp_zero_iff:
  assumes "even (length s)" and "length s div 2 \<le> length bin"
  shows "hex_bin_cmp s bin = 0 \<longleftrightarrow>
    (\<forall>c \<in> set s. is_hex c) \<and> hex_value s = take (length s div 2) bin"
  using hex_bin_cmp_loop_zero [OF assms, of "[]" 0] by (simp add: hex_bin_cmp_def)

lemma find_key_Some:
  assumes "find_key key_id keys = Some k" and "\<forall>k \<in> set keys. length (k_id k) = CRYPTO_KEYID_LEN"
  shows "k \<in> set keys \<and> (\<forall>c \<in> set key_id. is_hex c) \<and> k_id k = hex_value key_id"
proof -
  from assms(1) have len: "length key_id = 64" and "find (\<lambda>k. hex_bin_cmp key_id (k_id k) = 0) keys = Some k"
    by (auto simp: find_key_def CRYPTO_KEYID_LEN_def split: if_splits)
  then have "k \<in> set keys" "hex_bin_cmp key_id (k_id k) = 0"
    unfolding find_Some_iff by (auto intro: nth_mem)
  with assms(2) hex_bin_cmp_zero_iff [of key_id "k_id k"] len show ?thesis
    by (simp add: CRYPTO_KEYID_LEN_def)
qed

lemma find_key_complete:
  assumes "k \<in> set keys" and "\<forall>k \<in> set keys. length (k_id k) = CRYPTO_KEYID_LEN"
  shows "\<exists>k'. find_key (hex_digits (k_id k)) keys = Some k' \<and> k_id k' = k_id k"
proof -
  have len: "length (k_id k) = 32" using assms by (simp add: CRYPTO_KEYID_LEN_def)
  have "hex_bin_cmp (hex_digits (k_id k)) (k_id k) = 0"
    by (subst hex_bin_cmp_zero_iff) (simp_all add: hex_digits_is_hex)
  with assms(1) have "find_key (hex_digits (k_id k)) keys \<noteq> None"
    by (auto simp: find_key_def len CRYPTO_KEYID_LEN_def find_None_iff)
  then obtain k' where k': "find_key (hex_digits (k_id k)) keys = Some k'" by auto
  from find_key_Some [OF this assms(2)] k' show ?thesis by simp
qed

section \<open>Facts about decimal numbers\<close>

definition is_digit :: "char \<Rightarrow> bool" where
  "is_digit c \<longleftrightarrow> 48 \<le> (of_char c :: nat) \<and> (of_char c :: nat) \<le> 57"

text \<open>The number that a text of digits denotes.\<close>

definition dec_value :: "string \<Rightarrow> nat" where
  "dec_value = foldl (\<lambda>v c. v * 10 + (of_char c - 48)) 0"

lemma dec_value_snoc: "dec_value (s @ [c]) = dec_value s * 10 + (of_char c - 48)"
  by (simp add: dec_value_def)

lemma dec2int_loop_foldl:
  assumes "\<forall>c \<in> set s. is_digit c"
  shows "dec2int_loop s (of_nat v) = Some (of_nat (foldl (\<lambda>v c. v * 10 + (of_char c - 48)) v s))"
  using assms
proof (induction s arbitrary: v)
  case (Cons c s)
  have "(of_nat (of_char c) :: 32 word) - 48 = of_nat (of_char c - 48)"
    using Cons.prems by (simp add: is_digit_def of_nat_diff)
  then have "dec2int_loop (c # s) (of_nat v) = dec2int_loop s (of_nat (v * 10 + (of_char c - 48)))"
    using Cons.prems by (simp add: is_digit_def Let_def algebra_simps)
  with Cons.IH [of "v * 10 + (of_char c - 48)"] Cons.prems show ?case
    by (simp del: of_nat_add of_nat_mult dec2int_loop.simps)
qed simp

lemma dec2int_loop_value: "\<forall>c \<in> set s. is_digit c \<Longrightarrow> dec2int_loop s 0 = Some (of_nat (dec_value s))"
  using dec2int_loop_foldl [of s 0] by (simp add: dec_value_def)

lemma dec2int_loop_reject: "\<not> (\<forall>c \<in> set s. is_digit c) \<Longrightarrow> dec2int_loop s r = None"
  by (induction s arbitrary: r) (auto simp: is_digit_def Let_def)

text \<open>The reversed digits of a positive number.\<close>

lemma int2dec_digits_nat:
  assumes "0 < n"
  shows "int2dec_digits (int n) = char_of (48 + n mod 10) # int2dec_digits (int (n div 10))"
proof -
  have "int n smod 10 = int (n mod 10)" "int n sdiv 10 = int (n div 10)"
    using assms by (simp_all add: signed_modulo_int_def signed_divide_int_def zmod_int zdiv_int)
  moreover have "(48 + int (n mod 10)) mod 256 = int (48 + n mod 10)"
    using mod_less_divisor [of 10 n] by (simp add: mod_pos_pos_trivial)
  ultimately show ?thesis
    using assms by (subst int2dec_digits.simps) (simp add: nat_add_distrib)
qed

lemma int2dec_digits_facts:
  "(\<forall>c \<in> set (int2dec_digits (int n)). is_digit c) \<and> dec_value (rev (int2dec_digits (int n))) = n"
proof (induction n rule: less_induct)
  case (less n)
  show ?case
  proof (cases "n = 0")
    case True
    then show ?thesis by (simp add: int2dec_digits.simps dec_value_def)
  next
    case False
    have d: "of_char (char_of (48 + n mod 10)) = (48 + n mod 10 :: nat)"
      using mod_less_divisor [of 10 n] by simp
    with False less [of "n div 10"] show ?thesis
      using mod_less_divisor [of 10 n] by (simp add: int2dec_digits_nat dec_value_snoc is_digit_def)
  qed
qed

text \<open>The swapping loop reverses the digits after the sign.\<close>

definition swapped :: "nat \<Rightarrow> nat \<Rightarrow> nat \<Rightarrow> string \<Rightarrow> string \<Rightarrow> bool" where
  "swapped f l i s0 s \<longleftrightarrow> length s = length s0 \<and>
     (\<forall>k < length s0. s ! k = (if f \<le> k \<and> k < f + i \<or> l < k + i \<and> k \<le> l then s0 ! (f + l - k) else s0 ! k))"

lemma swapped_step:
  assumes "swapped f l i s0 s" and "i < (l + 1) div 2" and "f \<le> 1" and "l < length s0"
  shows "swapped f l (i + 1) s0 ((s[f + i := s ! (l - i)])[l - i := s ! (f + i)])"
proof -
  have le: "f + i \<le> l - i" "i \<le> l" using assms(2,3) by auto
  have at: "s ! (f + i) = s0 ! (f + i)" "s ! (l - i) = s0 ! (l - i)"
    using assms(1,4) le by (auto simp: swapped_def)
  have len: "length s = length s0" using assms(1) by (simp add: swapped_def)
  show ?thesis
    unfolding swapped_def
  proof (intro conjI allI impI)
    fix k
    assume k: "k < length s0"
    consider "k = l - i" | "k = f + i" "k \<noteq> l - i" | "k \<noteq> f + i" "k \<noteq> l - i" by blast
    then show "(s[f + i := s ! (l - i)])[l - i := s ! (f + i)] ! k =
        (if f \<le> k \<and> k < f + (i + 1) \<or> l < k + (i + 1) \<and> k \<le> l then s0 ! (f + l - k) else s0 ! k)"
    proof cases
      case 1
      with le k len at show ?thesis by (auto simp: algebra_simps)
    next
      case 2
      with le k len at show ?thesis by (auto simp: algebra_simps)
    next
      case 3
      with le k len assms(1) show ?thesis by (auto simp: swapped_def nth_list_update)
    qed
  qed (simp add: len)
qed

lemma swap_loop_swapped:
  assumes "swapped f l i s0 s" and "i \<le> (l + 1) div 2" and "f \<le> 1" and "l < length s0"
  shows "swapped f l ((l + 1) div 2) s0 (swap_loop i f l s)"
  using assms
proof (induction i f l s rule: swap_loop.induct)
  case (1 i f l s)
  show ?case
  proof (cases "i < (l + 1) div 2")
    case True
    from swapped_step [OF 1(2) True 1(4,5)] 1(1) [OF True refl refl refl] True 1(4,5)
    show ?thesis by (subst swap_loop.simps) (simp add: Let_def)
  next
    case False
    with 1(3) have "i = (l + 1) div 2" by simp
    with 1(2) show ?thesis by (subst swap_loop.simps) simp
  qed
qed

lemma swap_loop_rev:
  assumes "s \<noteq> []" and "f \<le> 1"
  shows "swap_loop 0 f (length s - 1) s = take f s @ rev (drop f s)"
proof -
  let ?l = "length s - 1"
  have "swapped f ?l 0 s s" by (auto simp: swapped_def)
  from swap_loop_swapped [OF this _ assms(2)] assms(1)
  have sw: "swapped f ?l ((?l + 1) div 2) s (swap_loop 0 f ?l s)" by simp
  show ?thesis
  proof (rule nth_equalityI)
    show "length (swap_loop 0 f ?l s) = length (take f s @ rev (drop f s))"
      using sw by (simp add: swapped_def)
    fix k
    assume "k < length (swap_loop 0 f ?l s)"
    with sw have k: "k < length s" by (simp add: swapped_def)
    with sw have "swap_loop 0 f ?l s ! k =
        (if f \<le> k \<and> k < f + (?l + 1) div 2 \<or> ?l < k + (?l + 1) div 2 \<and> k \<le> ?l then s ! (f + ?l - k) else s ! k)"
      by (simp add: swapped_def)
    also have "\<dots> = (take f s @ rev (drop f s)) ! k"
    proof (cases "k < f")
      case True
      with assms(2) have "k = 0" "f = 1" by auto
      with k show ?thesis by (auto simp: nth_append)
    next
      case False
      with k have r: "(take f s @ rev (drop f s)) ! k = s ! (f + ?l - k)"
        by (auto simp: nth_append rev_nth min_def)
      show ?thesis
      proof (cases "k < f + (?l + 1) div 2 \<or> ?l < k + (?l + 1) div 2")
        case True
        with False k r show ?thesis by auto
      next
        case mid: False
        with False k assms(2) have "f + ?l - k = k" by auto
        with mid r show ?thesis by auto
      qed
    qed
    finally show "swap_loop 0 f ?l s ! k = (take f s @ rev (drop f s)) ! k" .
  qed
qed

text \<open>The text that \<open>int2dec\<close> writes, for every number except the smallest.\<close>

lemma int2dec_text:
  assumes "num \<noteq> - (2 ^ 31)"
  shows "\<exists>ds. (\<forall>c \<in> set ds. is_digit c) \<and> ds \<noteq> [] \<and> dec_value ds = nat \<bar>sint num\<bar> \<and>
    int2dec num = (if sint num < 0 then ''-'' else '''') @ ds @ [CHR 0x00]"
proof (cases "sint num = 0")
  case True
  then show ?thesis
    by (intro exI [of _ "''0''"]) (simp add: int2dec_def is_digit_def dec_value_def)
next
  case False
  define a where "a = nat \<bar>sint num\<bar>"
  have neg: "sint (- num) = - sint num" if "sint num < 0"
  proof -
    have "sint num \<noteq> - (2 ^ 31)"
    proof
      assume "sint num = - (2 ^ 31)"
      then have "of_int (sint num) = (of_int (- (2 ^ 31)) :: 32 word)" by simp
      with assms show False by simp
    qed
    moreover have "- (2 ^ 31) \<le> sint num" using sint_greater_eq [of num] by simp
    ultimately have "- (2 ^ 31) < sint num" by simp
    with that have "signed_take_bit (LENGTH(32) - 1) (- sint num) = - sint num"
      by (intro signed_take_bit_int_eq_self) auto
    moreover have "- num = word_of_int (- sint num)" by simp
    ultimately show ?thesis by (metis sint_sbintrunc')
  qed
  have n: "(if sint num < 0 then sint (- num) else sint num) = int a"
    using neg by (auto simp: a_def)
  let ?sign = "if sint num < 0 then ''-'' else ''''" and ?ds = "int2dec_digits (int a)"
  have a: "0 < a" using False by (simp add: a_def)
  then have ne: "?ds \<noteq> []" by (simp add: int2dec_digits_nat)
  have "int2dec num = swap_loop 0 (length ?sign) (length (?sign @ ?ds) - 1) (?sign @ ?ds) @ [CHR 0x00]"
    using False n by (simp add: int2dec_def Let_def)
  also have "swap_loop 0 (length ?sign) (length (?sign @ ?ds) - 1) (?sign @ ?ds) =
      take (length ?sign) (?sign @ ?ds) @ rev (drop (length ?sign) (?sign @ ?ds))"
    using ne by (intro swap_loop_rev) auto
  also have "\<dots> = ?sign @ rev ?ds" by simp
  finally show ?thesis
    using int2dec_digits_facts [of a] ne by (intro exI [of _ "rev ?ds"]) (simp add: a_def)
qed

lemma dec2int_int2dec_lemma:
  assumes "num \<noteq> - (2 ^ 31)"
  shows "dec2int (int2dec num) (length (int2dec num) - 1) = Some (sint num)"
proof -
  from int2dec_text [OF assms] obtain ds where
    ds: "\<forall>c \<in> set ds. is_digit c" "ds \<noteq> []" "dec_value ds = nat \<bar>sint num\<bar>"
      "int2dec num = (if sint num < 0 then ''-'' else '''') @ ds @ [CHR 0x00]" by blast
  have hd: "hd (ds @ [CHR 0x00]) \<noteq> CHR ''-''"
    using ds(1,2) by (cases ds) (auto simp: is_digit_def)
  have loop: "dec2int_loop ds 0 = Some (of_nat (nat \<bar>sint num\<bar>))"
    using dec2int_loop_value [OF ds(1)] ds(3) by simp
  show ?thesis
  proof (cases "sint num < 0")
    case True
    then have "(of_nat (nat \<bar>sint num\<bar>) :: 32 word) = - num" by simp
    with True ds(4) loop show ?thesis by (simp add: dec2int_def Let_def)
  next
    case False
    then have "(of_nat (nat \<bar>sint num\<bar>) :: 32 word) = num" by simp
    with False ds(4) loop hd show ?thesis by (simp add: dec2int_def Let_def)
  qed
qed

section \<open>Facts about time stamps\<close>

text \<open>The fields of a time stamp as one number, most significant first.\<close>

definition time_code :: "uptane_time \<Rightarrow> nat" where
  "time_code t =
     (((((unat (year t) * 256 + unat (month t)) * 256 + unat (day t)) * 256 + unat (hour t)) * 256
       + unat (minute t)) * 256) + unat (second t)"

lemma byte_less_256 [byte_simps]: "unat (b :: byte) < 256"
proof -
  have "unat b < 2 ^ LENGTH(8)" by (rule unsigned_less)
  then show ?thesis by simp
qed

lemma digit_compare:
  assumes "(b :: nat) < 256" and "d < 256"
  shows "a * 256 + b > c * 256 + d \<longleftrightarrow> (if a \<noteq> c then a > c else b > d)"
    and "a * 256 + b = c * 256 + d \<longleftrightarrow> a = c \<and> b = d"
  using assms by (cases a c rule: linorder_cases; auto)+

lemma uptane_time_greater_code: "uptane_time_greater l r \<longleftrightarrow> time_code l > time_code r"
  unfolding time_code_def uptane_time_greater_def
  by (simp add: digit_compare byte_simps word_less_nat_alt word_unat_eq_iff del: distrib_right_numeral)

lemma time_code_inj: "time_code l = time_code r \<Longrightarrow> l = r"
  unfolding time_code_def
  by (cases l; cases r) (simp add: digit_compare byte_simps word_unat_eq_iff del: distrib_right_numeral)

end
