(* ===== verification/Uptiny_Base64.thy ===== *)
theory Uptiny_Base64
  imports Uptiny_Utils "HOL-Library.Monad_Syntax"
begin

text \<open>
  The base64 coder of the partial-verification client (\<open>partial/libuptiny/base64.c\<close>).  A pointer to a
  text is the list of the characters from it to the end of its object, an output buffer is the list of
  its bytes.  Reading or writing outside of an object is undefined in C: here it is \<^const>\<open>None\<close>, so that
  a result \<^const>\<open>Some\<close> states that every access was inside.
\<close>

section \<open>Bounded memory accesses\<close>

definition rd :: "'a list \<Rightarrow> nat \<Rightarrow> 'a option" where
  "rd xs i = (if i < length xs then Some (xs ! i) else None)"

definition wr :: "'a list \<Rightarrow> nat \<Rightarrow> 'a \<Rightarrow> 'a list option" where
  "wr xs i v = (if i < length xs then Some (xs[i := v]) else None)"

section \<open>Encoder\<close>

definition encode_6bit :: "byte \<Rightarrow> char" where
  "encode_6bit sextet =
     (if sextet \<le> 25 then char_of (65 + unat sextet)
      else if sextet \<le> 51 then char_of (97 + unat sextet - 26)
      else if sextet \<le> 61 then char_of (48 + unat sextet - 52)
      else if sextet = 62 then CHR ''+''
      else CHR ''/'')"

definition encode_triple :: "byte list \<Rightarrow> nat \<Rightarrow> string" where
  "encode_triple msg padding =
     [encode_6bit (drop_bit 2 (msg ! 0)),
      encode_6bit (0x3F AND (if padding < 2 then push_bit 4 (msg ! 0) OR drop_bit 4 (msg ! 1)
                             else push_bit 4 (msg ! 0)))] @
     (if padding = 2 then [CHR ''='', CHR ''='']
      else if padding = 1 then [encode_6bit (0x3F AND push_bit 2 (msg ! 1)), CHR ''='']
      else [encode_6bit (0x3F AND (push_bit 2 (msg ! 1) OR drop_bit 6 (msg ! 2))),
            encode_6bit (0x3F AND msg ! 2)])"

text \<open>The loop of \<open>base64_encode\<close>: \<open>msg\<close> is what is left of the message from index \<open>i\<close> on.\<close>

function base64_encode :: "byte list \<Rightarrow> string" where
  "base64_encode msg =
     (if msg = [] then [CHR 0x00]
      else encode_triple msg (if length msg = 1 then 2 else if length msg = 2 then 1 else 0)
             @ base64_encode (drop 3 msg))"
  by pat_completeness auto
termination
  by (relation "measure length") auto

declare base64_encode.simps [simp del]

definition BASE64_ENCODED_BUF_SIZE :: "nat \<Rightarrow> nat" where
  "BASE64_ENCODED_BUF_SIZE msg_size = (if msg_size \<le> 0 then 0 else 4 * (1 + (msg_size - 1) div 3) + 1)"

definition BASE64_DECODED_BUF_SIZE :: "nat \<Rightarrow> nat" where
  "BASE64_DECODED_BUF_SIZE base64_len = (base64_len div 4) * 3"

section \<open>Decoder\<close>

definition B64_SYM_OOR :: byte where "B64_SYM_OOR = 0xFF"
definition B64_SYM_PAD :: byte where "B64_SYM_PAD = 0xFE"
definition B64_SYM_EOL :: byte where "B64_SYM_EOL = 0xFD"
definition B64_SYM_FAIL_MASK :: byte where "B64_SYM_FAIL_MASK = 0xC0"

definition decode_sym :: "char \<Rightarrow> byte" where
  "decode_sym symb =
     (let n = of_char symb :: nat
      in if 65 \<le> n \<and> n \<le> 90 then of_nat (n - 65)
         else if 97 \<le> n \<and> n \<le> 122 then of_nat (26 + n - 97)
         else if 48 \<le> n \<and> n \<le> 57 then of_nat (52 + n - 48)
         else if symb = CHR ''+'' then 62
         else if symb = CHR ''/'' then 63
         else if symb = CHR ''='' then B64_SYM_PAD
         else if n = 0 then B64_SYM_EOL
         else B64_SYM_OOR)"

abbreviation sym_fails :: "byte \<Rightarrow> bool" where
  "sym_fails s \<equiv> s AND B64_SYM_FAIL_MASK \<noteq> 0"

text \<open>\<open>decode_quadruple base64 off out\<close> reads \<open>base64[0..3]\<close> and writes from \<open>out + off\<close> on.\<close>

definition decode_quadruple :: "string \<Rightarrow> nat \<Rightarrow> byte list \<Rightarrow> (int \<times> byte list) option" where
  "decode_quadruple base64 off out = do {
     c0 \<leftarrow> rd base64 0;
     let s0 = decode_sym c0;
     if s0 = B64_SYM_EOL then Some (0, out)
     else if sym_fails s0 then Some (-1, out)
     else do {
       out \<leftarrow> wr out off (push_bit 2 s0);
       c1 \<leftarrow> rd base64 1;
       let s1 = decode_sym c1;
       if sym_fails s1 then Some (-1, out)
       else do {
         out \<leftarrow> wr out off (out ! off OR drop_bit 4 s1);
         out \<leftarrow> wr out (off + 1) (push_bit 4 s1);
         c2 \<leftarrow> rd base64 2;
         let s2 = decode_sym c2;
         if s2 = B64_SYM_PAD then Some (1, out)
         else if sym_fails s2 then Some (-1, out)
         else do {
           out \<leftarrow> wr out (off + 1) (out ! (off + 1) OR drop_bit 2 s2);
           out \<leftarrow> wr out (off + 2) (push_bit 6 s2);
           c3 \<leftarrow> rd base64 3;
           let s3 = decode_sym c3;
           if s3 = B64_SYM_PAD then Some (2, out)
           else if sym_fails s3 then Some (-1, out)
           else do {
             out \<leftarrow> wr out (off + 2) (out ! (off + 2) OR s3);
             Some (3, out)
           }
         }
       }
     }
   }"

text \<open>
  The loop of \<open>base64_decode\<close>, with \<open>base64\<close> the text from index \<open>i\<close> on and \<open>left\<close> what is left of
  \<open>base64_len\<close>, \<open>base64_len - i\<close>.  The index is a 32-bit unsigned number that does not wrap for lengths
  up to \<open>2^32 - 4\<close>.
\<close>

function base64_decode_loop :: "string \<Rightarrow> nat \<Rightarrow> nat \<Rightarrow> byte list \<Rightarrow> (int \<times> byte list) option" where
  "base64_decode_loop base64 left sz out =
     (if left = 0 then Some (int sz, out)
      else do {
        (res, out) \<leftarrow> decode_quadruple base64 sz out;
        if res < 0 then Some (-1, out)
        else if res < 3 then Some (int sz + res, out)
        else base64_decode_loop (drop 4 base64) (left - 4) (sz + 3) out
      })"
  by pat_completeness auto
termination
  by (relation "measure (\<lambda>(b, l, s, out). l)") auto

declare base64_decode_loop.simps [simp del]

definition base64_decode :: "string \<Rightarrow> nat \<Rightarrow> byte list \<Rightarrow> (int \<times> byte list) option" where
  "base64_decode base64 base64_len out = base64_decode_loop base64 base64_len 0 out"

section \<open>Sextets\<close>

named_theorems b64_simps \<open>sextets, their symbols and the bytes they make up\<close>

lemma byte_bits_eqI:
  assumes "bit a 0 = bit b 0" "bit a 1 = bit b 1" "bit a 2 = bit b 2" "bit a 3 = bit b 3"
    "bit a 4 = bit b 4" "bit a 5 = bit b 5" "bit a 6 = bit b 6" "bit a 7 = bit b 7"
  shows "a = (b :: byte)"
proof (rule bit_word_eqI)
  fix n
  assume "n < LENGTH(8)"
  then consider "n = 0" | "n = 1" | "n = 2" | "n = 3" | "n = 4" | "n = 5" | "n = 6" | "n = 7" by fastforce
  then show "bit a n = bit b n" using assms by cases simp_all
qed

lemma encode_6bit_code:
  assumes "m < 64"
  shows "of_char (encode_6bit (of_nat m)) =
    (if m \<le> 25 then 65 + m else if m \<le> 51 then 71 + m else if m \<le> 61 then m - 4
     else if m = 62 then 43 else (47 :: nat))"
proof -
  have u: "unat (of_nat m :: byte) = m"
    using assms by (simp add: unat_of_nat)
  have le: "(of_nat m :: byte) \<le> 25 \<longleftrightarrow> m \<le> 25" "(of_nat m :: byte) \<le> 51 \<longleftrightarrow> m \<le> 51"
    "(of_nat m :: byte) \<le> 61 \<longleftrightarrow> m \<le> 61" "(of_nat m :: byte) = 62 \<longleftrightarrow> m = 62"
    by (simp_all only: word_le_nat_alt word_unat_eq_iff u) simp_all
  show ?thesis
    unfolding encode_6bit_def u le using assms by (auto simp: take_bit_nat_eq_self)
qed

lemma decode_sym_code:
  "decode_sym c = (let n = of_char c :: nat
     in if 65 \<le> n \<and> n \<le> 90 then of_nat (n - 65)
        else if 97 \<le> n \<and> n \<le> 122 then of_nat (26 + n - 97)
        else if 48 \<le> n \<and> n \<le> 57 then of_nat (52 + n - 48)
        else if n = 43 then 62 else if n = 47 then 63 else if n = 61 then B64_SYM_PAD
        else if n = 0 then B64_SYM_EOL else B64_SYM_OOR)"
proof -
  have "c = CHR ''+'' \<longleftrightarrow> of_char c = (of_char (CHR ''+'') :: nat)"
    "c = CHR ''/'' \<longleftrightarrow> of_char c = (of_char (CHR ''/'') :: nat)"
    "c = CHR ''='' \<longleftrightarrow> of_char c = (of_char (CHR ''='') :: nat)"
    by (simp_all only: of_char_eq_iff)
  then show ?thesis unfolding decode_sym_def Let_def by simp
qed

lemma sextet [b64_simps]:
  assumes "s < (64 :: byte)"
  shows "decode_sym (encode_6bit s) = s" and "s AND B64_SYM_FAIL_MASK = 0" and "s \<noteq> B64_SYM_PAD" and "s \<noteq> B64_SYM_EOL"
proof -
  have m: "unat s < 64" "s = of_nat (unat s)"
    using assms by (simp_all add: word_less_nat_alt)
  show "decode_sym (encode_6bit s) = s"
    using encode_6bit_code [OF m(1)] m(1)
    unfolding decode_sym_code Let_def m(2) [symmetric] by (auto simp: word_unat_eq_iff)
  have "s div 64 = 0" "s div 128 = 0"
    using m(1) by (simp_all add: word_unat_eq_iff unat_div)
  then have "\<not> bit s 6" "\<not> bit s 7" by (simp_all add: bit_iff_odd)
  then show "s AND B64_SYM_FAIL_MASK = 0"
    by (intro byte_bits_eqI) (simp_all add: B64_SYM_FAIL_MASK_def bit_simps)
  show "s \<noteq> B64_SYM_PAD" "s \<noteq> B64_SYM_EOL"
    using assms by (auto simp: B64_SYM_PAD_def B64_SYM_EOL_def word_less_nat_alt)
qed

lemma sextet_less [b64_simps]: "(0x3F :: byte) AND b < 64" "drop_bit 2 b < (64 :: byte)"
proof -
  show "(0x3F :: byte) AND b < 64"
    using word_and_le2 [of "0x3F" b] by (auto simp: word_le_nat_alt word_less_nat_alt)
  show "drop_bit 2 b < (64 :: byte)"
    using byte_less_256 [of b] by (simp add: word_less_nat_alt drop_bit_eq_div unat_div)
qed

text \<open>The bytes that the decoder assembles from the encoder's sextets.\<close>

lemma sextets_join [b64_simps]:
  "push_bit 2 (drop_bit 2 x) OR drop_bit 4 (0x3F AND (push_bit 4 x OR drop_bit 4 y)) = (x :: byte)"
  "push_bit 2 (drop_bit 2 x) OR drop_bit 4 (0x3F AND push_bit 4 x) = (x :: byte)"
  "push_bit 4 (0x3F AND (push_bit 4 x OR drop_bit 4 y)) OR drop_bit 2 (0x3F AND (push_bit 2 y OR drop_bit 6 z)) = (y :: byte)"
  "push_bit 4 (0x3F AND (push_bit 4 x OR drop_bit 4 y)) OR drop_bit 2 (0x3F AND push_bit 2 y) = (y :: byte)"
  "push_bit 6 (0x3F AND (push_bit 2 y OR drop_bit 6 z)) OR (0x3F AND z) = (z :: byte)"
  by (rule byte_bits_eqI; simp add: bit_simps)+

section \<open>Encoding and decoding\<close>

lemma length_encode_triple [simp]: "length (encode_triple msg padding) = 4"
  by (simp add: encode_triple_def)

lemma decode_sym_pad [b64_simps]: "decode_sym (CHR ''='') = B64_SYM_PAD"
  by (simp add: decode_sym_code)

lemma access_simps [b64_simps]:
  "rd (x # xs) 0 = Some x" "rd (x # y # xs) 1 = Some y" "rd (x # y # z # xs) 2 = Some z"
  "rd (x # y # z # w # xs) 3 = Some w"
  "wr (pre @ x # xs) (length pre) v = Some (pre @ v # xs)"
  "wr (pre @ x # y # xs) (length pre + 1) v = Some (pre @ x # v # xs)"
  "wr (pre @ x # y # z # xs) (length pre + 2) v = Some (pre @ x # y # v # xs)"
  "(pre @ x # xs) ! length pre = x" "(pre @ x # y # xs) ! (length pre + 1) = y"
  "(pre @ x # y # z # xs) ! (length pre + 2) = z"
  by (simp_all add: rd_def wr_def list_update_append nth_append)

lemma decode_quadruple_3:
  assumes "s0 < 64" "s1 < 64" "s2 < 64" "s3 < 64"
  shows "decode_quadruple (encode_6bit s0 # encode_6bit s1 # encode_6bit s2 # encode_6bit s3 # rest) (length pre)
      (pre @ a # b # c # r) =
    Some (3, pre @ (push_bit 2 s0 OR drop_bit 4 s1) # (push_bit 4 s1 OR drop_bit 2 s2) # (push_bit 6 s2 OR s3) # r)"
  unfolding decode_quadruple_def using assms by (simp only: b64_simps Option.bind.simps Let_def if_False simp_thms)

lemma decode_quadruple_2:
  assumes "s0 < 64" "s1 < 64" "s2 < 64"
  shows "decode_quadruple (encode_6bit s0 # encode_6bit s1 # encode_6bit s2 # CHR ''='' # rest) (length pre)
      (pre @ a # b # c # r) =
    Some (2, pre @ (push_bit 2 s0 OR drop_bit 4 s1) # (push_bit 4 s1 OR drop_bit 2 s2) # push_bit 6 s2 # r)"
  unfolding decode_quadruple_def using assms
  by (simp only: b64_simps Option.bind.simps Let_def if_False if_True simp_thms)

lemma decode_quadruple_1:
  assumes "s0 < 64" "s1 < 64"
  shows "decode_quadruple (encode_6bit s0 # encode_6bit s1 # CHR ''='' # x # rest) (length pre)
      (pre @ a # b # c # r) =
    Some (1, pre @ (push_bit 2 s0 OR drop_bit 4 s1) # push_bit 4 s1 # c # r)"
  unfolding decode_quadruple_def using assms
  by (simp only: b64_simps Option.bind.simps Let_def if_False if_True simp_thms)

lemma decode_triple:
  "\<exists>b'. decode_quadruple (encode_triple [x] 2 @ rest) (length pre) (pre @ a # b # c # r) =
      Some (1, pre @ x # b' # c # r)"
  "\<exists>c'. decode_quadruple (encode_triple [x, y] 1 @ rest) (length pre) (pre @ a # b # c # r) =
      Some (2, pre @ x # y # c' # r)"
  "decode_quadruple (encode_triple (x # y # z # m) 0 @ rest) (length pre) (pre @ a # b # c # r) =
      Some (3, pre @ x # y # z # r)"
  using decode_quadruple_1 [OF sextet_less(2) [of x] sextet_less(1) [of "push_bit 4 x"], of "CHR ''=''"]
    decode_quadruple_2 [OF sextet_less(2) [of x] sextet_less(1) [of "push_bit 4 x OR drop_bit 4 y"]
      sextet_less(1) [of "push_bit 2 y"]]
    decode_quadruple_3 [OF sextet_less(2) [of x] sextet_less(1) [of "push_bit 4 x OR drop_bit 4 y"]
      sextet_less(1) [of "push_bit 2 y OR drop_bit 6 z"] sextet_less(1) [of z]]
  unfolding sextets_join by (simp_all add: encode_triple_def)

lemma length_base64_encode: "length (base64_encode msg) = 4 * ((length msg + 2) div 3) + 1"
proof (induction msg rule: base64_encode.induct)
  case (1 msg)
  show ?case
  proof (cases "msg = []")
    case False
    then have "length (base64_encode msg) = 4 + (4 * ((length (drop 3 msg) + 2) div 3) + 1)"
      using 1 by (subst base64_encode.simps) simp
    also have "\<dots> = 4 * ((length msg + 2) div 3) + 1"
      using False by (cases "length msg < 3") (auto simp: div_if)
    finally show ?thesis .
  qed (simp add: base64_encode.simps)
qed

text \<open>The loop gives back the message, whatever the buffer held before.\<close>

lemma base64_decode_encode:
  assumes "length buf \<ge> 3 * ((length msg + 2) div 3)"
  shows "\<exists>buf'. base64_decode_loop (base64_encode msg) (length (base64_encode msg) - 1) (length pre) (pre @ buf) =
      Some (int (length pre + length msg), pre @ msg @ buf') \<and> length msg + length buf' = length buf"
  using assms
proof (induction msg arbitrary: pre buf rule: base64_encode.induct)
  case (1 msg)
  consider "msg = []" | x where "msg = [x]" | x y where "msg = [x, y]" | x y z m where "msg = x # y # z # m"
    by (metis neq_Nil_conv)
  then show ?case
  proof cases
    case 1
    then show ?thesis by (simp add: base64_encode.simps base64_decode_loop.simps)
  next
    case (2 x)
    then have "length buf \<ge> 3" using 1(2) by simp
    then obtain a b c r where buf: "buf = a # b # c # r" by (metis Suc_le_length_iff numeral_3_eq_3)
    show ?thesis
      using decode_triple(1) [of x "base64_encode []" pre a b c r] unfolding 2 buf
      by (auto simp: base64_encode.simps [of "[x]"] base64_decode_loop.simps)
  next
    case (3 x y)
    then have "length buf \<ge> 3" using 1(2) by simp
    then obtain a b c r where buf: "buf = a # b # c # r" by (metis Suc_le_length_iff numeral_3_eq_3)
    show ?thesis
      using decode_triple(2) [of x y "base64_encode []" pre a b c r] unfolding 3 buf
      by (auto simp: base64_encode.simps [of "[x, y]"] base64_decode_loop.simps)
  next
    case (4 x y z m)
    then have "(length msg + 2) div 3 = (length m + 2) div 3 + 1" by simp
    then have len: "length buf \<ge> 3" "length (drop 3 buf) \<ge> 3 * ((length m + 2) div 3)" using 1(2) by auto
    then obtain a b c r where buf: "buf = a # b # c # r" by (metis Suc_le_length_iff numeral_3_eq_3)
    let ?e = "base64_encode m"
    have e: "base64_encode (x # y # z # m) = encode_triple (x # y # z # m) 0 @ ?e"
      by (subst base64_encode.simps) auto
    have ne: "?e \<noteq> []" using length_base64_encode [of m] by (cases ?e) auto
    have "base64_decode_loop (base64_encode msg) (length (base64_encode msg) - 1) (length pre) (pre @ buf) =
        base64_decode_loop ?e (length ?e - 1) (length (pre @ [x, y, z])) ((pre @ [x, y, z]) @ r)"
      using ne unfolding e buf 4
      by (subst base64_decode_loop.simps) (simp add: decode_triple numeral_3_eq_3)
    with 1(1) [of "r" "pre @ [x, y, z]"] len 4 buf show ?thesis by auto
  qed
qed

text \<open>
  A quadruple touches only the three bytes at its offset, and the whole decoder only the first
  \<open>3 * ((base64_len + 3) div 4)\<close> bytes.
\<close>

lemma decode_quadruple_inside:
  assumes "4 \<le> length base64" and "off + 3 \<le> length out"
  shows "\<exists>res out'. decode_quadruple base64 off out = Some (res, out') \<and> -1 \<le> res \<and> res \<le> 3 \<and>
    length out' = length out \<and> take off out' = take off out \<and> drop (off + 3) out' = drop (off + 3) out"
proof -
  obtain c0 c1 c2 c3 cs where "base64 = c0 # c1 # c2 # c3 # cs"
    using assms(1) by (auto simp: Suc_le_length_iff numeral_eq_Suc)
  with assms(2) show ?thesis
    unfolding decode_quadruple_def rd_def wr_def Let_def by (simp add: drop_update_cancel)
qed

lemma base64_decode_loop_inside:
  assumes "4 * ((left + 3) div 4) \<le> length base64" and "sz + 3 * ((left + 3) div 4) \<le> length out"
  shows "\<exists>res out'. base64_decode_loop base64 left sz out = Some (res, out') \<and>
    -1 \<le> res \<and> res \<le> int (sz + 3 * ((left + 3) div 4)) \<and> length out' = length out \<and>
    take sz out' = take sz out \<and>
    drop (sz + 3 * ((left + 3) div 4)) out' = drop (sz + 3 * ((left + 3) div 4)) out"
  using assms
proof (induction base64 left sz out rule: base64_decode_loop.induct)
  case (1 base64 left sz out)
  show ?case
  proof (cases "left = 0")
    case True
    then show ?thesis by (simp add: base64_decode_loop.simps)
  next
    case False
    define q where "q = (left - 4 + 3) div 4"
    have q: "(left + 3) div 4 = q + 1" using False by (cases "left < 4") (auto simp: q_def div_if)
    obtain res out' where d: "decode_quadruple base64 sz out = Some (res, out')" "-1 \<le> res" "res \<le> 3"
      "length out' = length out" "take sz out' = take sz out" "drop (sz + 3) out' = drop (sz + 3) out"
      using decode_quadruple_inside [of base64 sz out] 1(2,3) q by auto
    have dr: "drop (sz + 3 * (q + 1)) out' = drop (sz + 3 * (q + 1)) out"
      using arg_cong [OF d(6), of "drop (3 * q)"] by (simp add: algebra_simps)
    show ?thesis
    proof (cases "res < 3")
      case True
      then show ?thesis using False d dr q by (subst base64_decode_loop.simps) auto
    next
      case loop: False
      with d(3) have "res = 3" by simp
      with False d(1) have "base64_decode_loop base64 left sz out = base64_decode_loop (drop 4 base64) (left - 4) (sz + 3) out'"
        by (subst base64_decode_loop.simps) simp
      moreover have len: "4 * q \<le> length (drop 4 base64)" "sz + 3 + 3 * q \<le> length out'"
        using 1(2,3) q d(4) by auto
      moreover obtain res2 out2 where
        "base64_decode_loop (drop 4 base64) (left - 4) (sz + 3) out' = Some (res2, out2)"
        "-1 \<le> res2" "res2 \<le> int (sz + 3 + 3 * q)" "length out2 = length out'" "take (sz + 3) out2 = take (sz + 3) out'"
        "drop (sz + 3 + 3 * q) out2 = drop (sz + 3 + 3 * q) out'"
        using 1(1) [OF False d(1) refl, folded q_def] \<open>res = 3\<close> len d(4) by auto
      moreover from this(5) d(5) have "take sz out2 = take sz out"
        by (metis (no_types) le_add1 min.absorb1 take_take)
      ultimately show ?thesis using q dr d(4) by (auto simp: algebra_simps)
    qed
  qed
qed

end
