(* ===== verification/Jsmn.thy ===== *)
theory Jsmn
  imports Main "HOL-Library.Monad_Syntax"
begin

text \<open>
  The tokeniser of the partial-verification client (\<open>partial/libuptiny/jsmn.c\<close>, \<open>json_common.c\<close>), in the
  configuration the client is built with (\<open>JSMN_STRICT\<close>, \<open>JSMN_PARENT_LINKS\<close>) and with a token pool, as
  every caller passes one.  The text \<open>js\<close> has \<open>len\<close> characters; the pool is a list of fixed length.  The
  search for the bracket to close follows parent links, which need not end in an arbitrary pool:
  the functions are partial, and that they return is a theorem.
\<close>

section \<open>Tokens and parser\<close>

datatype jsmntype = JSMN_UNDEFINED | JSMN_OBJECT | JSMN_ARRAY | JSMN_STRING | JSMN_PRIMITIVE

datatype jsmnerr = JSMN_ERROR_NOMEM | JSMN_ERROR_INVAL | JSMN_ERROR_PART

record jsmntok =
  t_type :: jsmntype
  t_start :: int
  t_end :: int
  t_size :: int
  t_parent :: int

record jsmn_parser =
  pos :: nat
  toknext :: nat
  toksuper :: int

type_synonym jsmn_result = "jsmnerr option \<times> jsmn_parser \<times> jsmntok list"

definition jsmn_init :: jsmn_parser where
  "jsmn_init = \<lparr>pos = 0, toknext = 0, toksuper = -1\<rparr>"

definition jsmn_alloc_token :: "jsmn_parser \<Rightarrow> jsmntok list \<Rightarrow> (nat \<times> jsmn_parser \<times> jsmntok list) option" where
  "jsmn_alloc_token parser tokens =
     (if length tokens \<le> toknext parser then None
      else Some (toknext parser, parser\<lparr>toknext := toknext parser + 1\<rparr>,
                 tokens[toknext parser := (tokens ! toknext parser)\<lparr>t_start := -1, t_end := -1, t_size := 0, t_parent := -1\<rparr>]))"

definition jsmn_fill_token :: "jsmntype \<Rightarrow> int \<Rightarrow> int \<Rightarrow> jsmntok \<Rightarrow> jsmntok" where
  "jsmn_fill_token ty start fin token = token\<lparr>t_type := ty, t_start := start, t_end := fin, t_size := 0\<rparr>"

section \<open>Primitives and strings\<close>

text \<open>The scanning loops return the position they stop at.\<close>

function primitive_loop :: "string \<Rightarrow> nat \<Rightarrow> jsmnerr + nat" where
  "primitive_loop js p =
     (if p < length js \<and> js ! p \<noteq> CHR 0x00 then
        if js ! p \<in> {CHR 0x09, CHR 0x0D, CHR 0x0A, CHR '' '', CHR '','', CHR '']'', CHR ''}''} then Inr p
        else if of_char (js ! p) < (32 :: nat) \<or> 127 \<le> (of_char (js ! p) :: nat) then Inl JSMN_ERROR_INVAL
        else primitive_loop js (p + 1)
      else Inl JSMN_ERROR_PART)"
  by pat_completeness auto
termination
  by (relation "measure (\<lambda>(js, p). length js - p)") auto

declare primitive_loop.simps [simp del]

definition jsmn_parse_primitive :: "jsmn_parser \<Rightarrow> string \<Rightarrow> jsmntok list \<Rightarrow> jsmn_result" where
  "jsmn_parse_primitive parser js tokens =
     (let start = pos parser
      in case primitive_loop js start of
           Inl e \<Rightarrow> (Some e, parser, tokens)
         | Inr p \<Rightarrow>
             (case jsmn_alloc_token parser tokens of
                None \<Rightarrow> (Some JSMN_ERROR_NOMEM, parser\<lparr>pos := start\<rparr>, tokens)
              | Some (token, parser, tokens) \<Rightarrow>
                  (None, parser\<lparr>pos := p - 1\<rparr>,
                   tokens[token := (jsmn_fill_token JSMN_PRIMITIVE (int start) (int p) (tokens ! token))
                                     \<lparr>t_parent := toksuper parser\<rparr>])))"

definition is_hex_digit :: "char \<Rightarrow> bool" where
  "is_hex_digit c = (let n = of_char c :: nat
     in (48 \<le> n \<and> n \<le> 57) \<or> (65 \<le> n \<and> n \<le> 70) \<or> (97 \<le> n \<and> n \<le> 102))"

primrec unicode_loop :: "nat \<Rightarrow> string \<Rightarrow> nat \<Rightarrow> nat option" where
  "unicode_loop 0 js p = Some p"
| "unicode_loop (Suc i) js p =
     (if p < length js \<and> js ! p \<noteq> CHR 0x00
      then if \<not> is_hex_digit (js ! p) then None else unicode_loop i js (p + 1)
      else Some p)"

lemma unicode_loop_le: "unicode_loop i js p = Some q \<Longrightarrow> p \<le> q \<and> (p \<le> length js \<longrightarrow> q \<le> length js)"
  by (induction i arbitrary: p) (fastforce split: if_splits)+

function string_loop :: "string \<Rightarrow> nat \<Rightarrow> jsmnerr + nat" where
  "string_loop js p =
     (if p < length js \<and> js ! p \<noteq> CHR 0x00 then
        if js ! p = CHR 0x22 then Inr p
        else if js ! p = CHR 0x5C \<and> p + 1 < length js then
          if js ! (p + 1) \<in> {CHR 0x22, CHR ''/'', CHR 0x5C, CHR ''b'', CHR ''f'', CHR ''r'', CHR ''n'', CHR ''t''}
          then string_loop js (p + 2)
          else if js ! (p + 1) = CHR ''u'' then
            (case unicode_loop 4 js (p + 2) of
               None \<Rightarrow> Inl JSMN_ERROR_INVAL
             | Some q \<Rightarrow> string_loop js (q - 1 + 1))
          else Inl JSMN_ERROR_INVAL
        else string_loop js (p + 1)
      else Inl JSMN_ERROR_PART)"
  by pat_completeness auto
termination
  by (relation "measure (\<lambda>(js, p). length js - p)") (auto dest: unicode_loop_le)

declare string_loop.simps [simp del]

definition jsmn_parse_string :: "jsmn_parser \<Rightarrow> string \<Rightarrow> jsmntok list \<Rightarrow> jsmn_result" where
  "jsmn_parse_string parser js tokens =
     (let start = pos parser
      in case string_loop js (start + 1) of
           Inl e \<Rightarrow> (Some e, parser\<lparr>pos := start\<rparr>, tokens)
         | Inr p \<Rightarrow>
             (case jsmn_alloc_token parser tokens of
                None \<Rightarrow> (Some JSMN_ERROR_NOMEM, parser\<lparr>pos := start\<rparr>, tokens)
              | Some (token, parser, tokens) \<Rightarrow>
                  (None, parser\<lparr>pos := p\<rparr>,
                   tokens[token := (jsmn_fill_token JSMN_STRING (int start + 1) (int p) (tokens ! token))
                                     \<lparr>t_parent := toksuper parser\<rparr>])))"

section \<open>The parser\<close>

text \<open>\<open>tokens[parser->toksuper].size++\<close>\<close>

definition grow_super :: "jsmn_parser \<Rightarrow> jsmntok list \<Rightarrow> jsmntok list" where
  "grow_super parser tokens =
     (if toksuper parser \<noteq> -1
      then tokens[nat (toksuper parser) := (tokens ! nat (toksuper parser))\<lparr>t_size := t_size (tokens ! nat (toksuper parser)) + 1\<rparr>]
      else tokens)"

definition jsmn_open :: "char \<Rightarrow> jsmn_parser \<Rightarrow> jsmntok list \<Rightarrow> jsmn_result" where
  "jsmn_open c parser tokens =
     (case jsmn_alloc_token parser tokens of
        None \<Rightarrow> (Some JSMN_ERROR_NOMEM, parser, tokens)
      | Some (token, parser, tokens) \<Rightarrow>
          let tokens = grow_super parser tokens;
              tokens = (if toksuper parser \<noteq> -1
                        then tokens[token := (tokens ! token)\<lparr>t_parent := toksuper parser\<rparr>] else tokens);
              tokens = tokens[token := (tokens ! token)\<lparr>t_type := (if c = CHR ''{'' then JSMN_OBJECT else JSMN_ARRAY),
                                                        t_start := int (pos parser)\<rparr>]
          in (None, parser\<lparr>toksuper := int (toknext parser) - 1\<rparr>, tokens))"

text \<open>The loop of a closing bracket, at token \<open>t\<close>.\<close>

partial_function (option) jsmn_close ::
  "jsmntype \<Rightarrow> jsmn_parser \<Rightarrow> jsmntok list \<Rightarrow> nat \<Rightarrow> jsmn_result option" where
  "jsmn_close ty parser tokens t =
     (if t_start (tokens ! t) \<noteq> -1 \<and> t_end (tokens ! t) = -1 then
        (if t_type (tokens ! t) \<noteq> ty then Some (Some JSMN_ERROR_INVAL, parser, tokens)
         else Some (None, parser\<lparr>toksuper := t_parent (tokens ! t)\<rparr>,
                    tokens[t := (tokens ! t)\<lparr>t_end := int (pos parser) + 1\<rparr>]))
      else if t_parent (tokens ! t) = -1 then
        (if t_type (tokens ! t) \<noteq> ty \<or> toksuper parser = -1 then Some (Some JSMN_ERROR_INVAL, parser, tokens)
         else Some (None, parser, tokens))
      else jsmn_close ty parser tokens (nat (t_parent (tokens ! t))))"

declare jsmn_close.simps [code]

definition jsmn_comma :: "jsmn_parser \<Rightarrow> jsmntok list \<Rightarrow> jsmn_parser" where
  "jsmn_comma parser tokens =
     (if toksuper parser \<noteq> -1 \<and> t_type (tokens ! nat (toksuper parser)) \<noteq> JSMN_ARRAY
         \<and> t_type (tokens ! nat (toksuper parser)) \<noteq> JSMN_OBJECT
      then parser\<lparr>toksuper := t_parent (tokens ! nat (toksuper parser))\<rparr>
      else parser)"

text \<open>In strict mode a primitive must not be a key of an object.\<close>

definition primitive_allowed :: "jsmn_parser \<Rightarrow> jsmntok list \<Rightarrow> bool" where
  "primitive_allowed parser tokens =
     (toksuper parser = -1 \<or>
      (let t = tokens ! nat (toksuper parser)
       in \<not> (t_type t = JSMN_OBJECT \<or> (t_type t = JSMN_STRING \<and> t_size t \<noteq> 0))))"

text \<open>One round of the loop of \<open>jsmn_parse\<close>: the result and how much \<open>count\<close> grows.\<close>

definition add_size :: "jsmn_result \<Rightarrow> (nat \<times> jsmn_result)" where
  "add_size r = (case r of (Some e, parser, tokens) \<Rightarrow> (0, r)
                 | (None, parser, tokens) \<Rightarrow> (1, None, parser, grow_super parser tokens))"

definition jsmn_char :: "string \<Rightarrow> jsmn_parser \<Rightarrow> jsmntok list \<Rightarrow> (nat \<times> jsmn_result) option" where
  "jsmn_char js parser tokens =
     (let c = js ! pos parser
      in if c \<in> {CHR ''{'', CHR ''[''} then Some (1, jsmn_open c parser tokens)
         else if c \<in> {CHR ''}'', CHR '']''} then
           (if toknext parser < 1 then Some (0, Some JSMN_ERROR_INVAL, parser, tokens)
            else map_option (Pair 0) (jsmn_close (if c = CHR ''}'' then JSMN_OBJECT else JSMN_ARRAY) parser tokens (toknext parser - 1)))
         else if c = CHR 0x22 then Some (add_size (jsmn_parse_string parser js tokens))
         else if c \<in> {CHR 0x09, CHR 0x0D, CHR 0x0A, CHR '' ''} then Some (0, None, parser, tokens)
         else if c = CHR '':'' then Some (0, None, parser\<lparr>toksuper := int (toknext parser) - 1\<rparr>, tokens)
         else if c = CHR '','' then Some (0, None, jsmn_comma parser tokens, tokens)
         else if c \<in> set ''-0123456789tfn'' then
           (if \<not> primitive_allowed parser tokens then Some (0, Some JSMN_ERROR_INVAL, parser, tokens)
            else Some (add_size (jsmn_parse_primitive parser js tokens)))
         else Some (0, Some JSMN_ERROR_INVAL, parser, tokens))"

definition unmatched :: "jsmn_parser \<Rightarrow> jsmntok list \<Rightarrow> bool" where
  "unmatched parser tokens = list_ex (\<lambda>t. t_start t \<noteq> -1 \<and> t_end t = -1) (take (toknext parser) tokens)"

partial_function (option) jsmn_loop ::
  "string \<Rightarrow> nat \<Rightarrow> jsmn_parser \<Rightarrow> jsmntok list \<Rightarrow> ((jsmnerr + nat) \<times> jsmn_parser \<times> jsmntok list) option" where
  "jsmn_loop js count parser tokens =
     (if pos parser < length js \<and> js ! pos parser \<noteq> CHR 0x00 then
        Option.bind (jsmn_char js parser tokens) (\<lambda>(grown, err, parser', tokens').
          if err \<noteq> None then Some (Inl (the err), parser', tokens')
          else jsmn_loop js (count + grown) (parser'\<lparr>pos := pos parser' + 1\<rparr>) tokens')
      else if unmatched parser tokens then Some (Inl JSMN_ERROR_PART, parser, tokens)
      else Some (Inr count, parser, tokens))"

declare jsmn_loop.simps [code]

definition jsmn_parse :: "jsmn_parser \<Rightarrow> string \<Rightarrow> jsmntok list \<Rightarrow> ((jsmnerr + nat) \<times> jsmn_parser \<times> jsmntok list) option" where
  "jsmn_parse parser js tokens = jsmn_loop js (toknext parser) parser tokens"

section \<open>Walking over the tokens\<close>

function consume_loop :: "jsmntok list \<Rightarrow> int \<Rightarrow> nat \<Rightarrow> nat" where
  "consume_loop token_pool fin i =
     (if i < length token_pool then
        if fin \<le> t_start (token_pool ! i) then i else consume_loop token_pool fin (i + 1)
      else i)"
  by pat_completeness auto
termination
  by (relation "measure (\<lambda>(toks, e, i). length toks - i)") auto

declare consume_loop.simps [simp del]

definition consume_recursive_json :: "jsmntok list \<Rightarrow> nat \<Rightarrow> nat" where
  "consume_recursive_json token_pool idx =
     (if t_type (token_pool ! idx) \<noteq> JSMN_OBJECT \<and> t_type (token_pool ! idx) \<noteq> JSMN_ARRAY then idx + 1
      else consume_loop token_pool (t_end (token_pool ! idx)) (idx + 1))"

definition JSON_TOK_LEN :: "jsmntok \<Rightarrow> int" where
  "JSON_TOK_LEN token = t_end token - t_start token"

definition tok_text :: "string \<Rightarrow> jsmntok \<Rightarrow> string" where
  "tok_text message token = take (nat (JSON_TOK_LEN token)) (drop (nat (t_start token)) message)"

definition JSON_STR_EQUAL :: "string \<Rightarrow> jsmntok \<Rightarrow> string \<Rightarrow> bool" where
  "JSON_STR_EQUAL message token str_literal =
     (JSON_TOK_LEN token = int (length str_literal) \<and> tok_text message token = str_literal)"

section \<open>The token invariant\<close>

text \<open>
  Every allocated token lies inside the text read so far, its parent comes before it, tokens are ordered by
  their start and nested like brackets, and the size of a token is the number of its children.  Open
  tokens are found by following parent links from the newest token on.
\<close>

definition tok_inv :: "nat \<Rightarrow> nat \<Rightarrow> jsmntok \<Rightarrow> bool" where
  "tok_inv n i t \<longleftrightarrow> -1 \<le> t_parent t \<and> t_parent t < int i \<and> 0 \<le> t_start t \<and> t_start t < int n \<and>
     (t_end t = -1 \<and> t_type t \<in> {JSMN_OBJECT, JSMN_ARRAY} \<or> t_start t \<le> t_end t \<and> t_end t \<le> int n)"

definition nested :: "jsmntok \<Rightarrow> jsmntok \<Rightarrow> bool" where
  "nested a b \<longleftrightarrow> t_start a < t_start b \<and>
     (t_end a = -1 \<or> t_end a \<le> t_start b \<or> t_end b \<noteq> -1 \<and> t_end b \<le> t_end a)"

definition children :: "jsmntok list \<Rightarrow> nat \<Rightarrow> nat \<Rightarrow> nat set" where
  "children tokens m i = {j. j < m \<and> t_parent (tokens ! j) = int i}"

definition jsmn_inv :: "nat \<Rightarrow> jsmn_parser \<Rightarrow> jsmntok list \<Rightarrow> bool" where
  "jsmn_inv n p tokens \<longleftrightarrow>
     toknext p \<le> length tokens \<and> -1 \<le> toksuper p \<and> toksuper p < int (toknext p) \<and>
     (\<forall>i < toknext p. tok_inv n i (tokens ! i)) \<and>
     (\<forall>k < toknext p. t_end (tokens ! k) = -1 \<longrightarrow>
        int k \<le> toksuper p \<and> (\<forall>j. k < j \<and> j < toknext p \<longrightarrow> int k \<le> t_parent (tokens ! j))) \<and>
     (\<forall>i j. i < j \<and> j < toknext p \<longrightarrow> nested (tokens ! i) (tokens ! j)) \<and>
     (\<forall>i < toknext p. t_size (tokens ! i) = int (card (children tokens (toknext p) i)))"

lemma jsmn_inv_init [simp]: "jsmn_inv n jsmn_init tokens"
  by (simp add: jsmn_inv_def jsmn_init_def)

lemma jsmn_inv_pos [simp]: "jsmn_inv n (p\<lparr>pos := q\<rparr>) tokens = jsmn_inv n p tokens"
  by (simp add: jsmn_inv_def)

lemma tok_inv_mono: "tok_inv n i t \<Longrightarrow> n \<le> m \<Longrightarrow> tok_inv m i t"
  by (auto simp: tok_inv_def)

lemma jsmn_inv_mono: "jsmn_inv n p tokens \<Longrightarrow> n \<le> m \<Longrightarrow> jsmn_inv m p tokens"
  unfolding jsmn_inv_def by (elim conjE, intro conjI, assumption+) (auto intro: tok_inv_mono)

lemma grow_super_fields [simp]:
  "length (grow_super p tokens) = length tokens"
  "t_type (grow_super p tokens ! i) = t_type (tokens ! i)"
  "t_start (grow_super p tokens ! i) = t_start (tokens ! i)"
  "t_end (grow_super p tokens ! i) = t_end (tokens ! i)"
  "t_parent (grow_super p tokens ! i) = t_parent (tokens ! i)"
proof -
  show "length (grow_super p tokens) = length tokens" by (simp add: grow_super_def)
  show "t_type (grow_super p tokens ! i) = t_type (tokens ! i)"
    "t_start (grow_super p tokens ! i) = t_start (tokens ! i)"
    "t_end (grow_super p tokens ! i) = t_end (tokens ! i)"
    "t_parent (grow_super p tokens ! i) = t_parent (tokens ! i)"
    by (cases "i = nat (toksuper p)"; cases "nat (toksuper p) < length tokens";
        simp add: grow_super_def list_update_beyond)+
qed

lemma grow_super_parser [simp]:
  "grow_super (p\<lparr>pos := q\<rparr>) tokens = grow_super p tokens"
  "grow_super (p\<lparr>toknext := q\<rparr>) tokens = grow_super p tokens"
  by (simp_all add: grow_super_def)

lemma grow_super_size:
  assumes "jsmn_inv n p tokens" and "i < toknext p"
  shows "t_size (grow_super p tokens ! i) = t_size (tokens ! i) + (if toksuper p = int i then 1 else 0)"
  using assms by (auto simp: grow_super_def jsmn_inv_def nth_list_update)

text \<open>A new token becomes a child of the superior token.\<close>

definition put_token :: "jsmn_parser \<Rightarrow> jsmntok list \<Rightarrow> jsmntok \<Rightarrow> jsmntok list" where
  "put_token p tokens tk = (grow_super p tokens)[toknext p := tk]"

lemma length_put_token [simp]: "length (put_token p tokens tk) = length tokens"
  by (simp add: put_token_def)

lemma put_token_inv:
  assumes inv: "jsmn_inv n p tokens" and room: "toknext p < length tokens"
    and tk: "t_parent tk = toksuper p" "t_size tk = 0" "int n \<le> t_start tk" "tok_inv m (toknext p) tk"
    and le: "n \<le> m"
    and ts: "ts = toksuper p \<and> t_end tk \<noteq> -1 \<or> ts = int (toknext p)"
  shows "jsmn_inv m (p\<lparr>toknext := toknext p + 1, toksuper := ts\<rparr>) (put_token p tokens tk)"
proof -
  let ?toks = "put_token p tokens tk"
  have old: "t_type (?toks ! i) = t_type (tokens ! i)" "t_start (?toks ! i) = t_start (tokens ! i)"
    "t_end (?toks ! i) = t_end (tokens ! i)" "t_parent (?toks ! i) = t_parent (tokens ! i)"
    if "i < toknext p" for i
    using that by (simp_all add: put_token_def)
  have new: "?toks ! toknext p = tk" using room by (simp add: put_token_def)
  note I = inv [unfolded jsmn_inv_def]
  have all: "tok_inv m i (?toks ! i)" if "i < toknext p + 1" for i
  proof (cases "i = toknext p")
    case False
    with that have i: "i < toknext p" by simp
    then have "tok_inv n i (tokens ! i)" using I by blast
    then have "tok_inv m i (tokens ! i)" using le by (rule tok_inv_mono)
    then show ?thesis by (simp add: tok_inv_def old [OF i])
  qed (simp add: new tk)
  have opens: "int k \<le> ts \<and> (\<forall>j. k < j \<and> j < toknext p + 1 \<longrightarrow> int k \<le> t_parent (?toks ! j))"
    if k: "k < toknext p + 1" and o: "t_end (?toks ! k) = -1" for k
  proof (cases "k = toknext p")
    case True
    then show ?thesis using o ts by (auto simp: new)
  next
    case False
    with k have k: "k < toknext p" by simp
    with o have "t_end (tokens ! k) = -1" by (simp add: old)
    with I k have kI: "int k \<le> toksuper p" "\<forall>j. k < j \<and> j < toknext p \<longrightarrow> int k \<le> t_parent (tokens ! j)" by blast+
    have "int k \<le> t_parent (?toks ! j)" if "k < j" "j < toknext p + 1" for j
      using that kI by (cases "j = toknext p") (auto simp: new tk old)
    moreover have "int k \<le> ts" using ts kI(1) I by auto
    ultimately show ?thesis by blast
  qed
  have nest: "nested (?toks ! i) (?toks ! j)" if "i < j" "j < toknext p + 1" for i j
  proof (cases "j = toknext p")
    case True
    with that have i: "i < toknext p" by simp
    then have "tok_inv n i (tokens ! i)" using I by blast
    then show ?thesis using tk(3) by (auto simp: True new nested_def old [OF i] tok_inv_def)
  next
    case False
    with that I have "nested (tokens ! i) (tokens ! j)" by auto
    with that False show ?thesis by (simp add: nested_def old)
  qed
  have szs: "t_size (?toks ! i) = int (card (children ?toks (toknext p + 1) i))" if "i < toknext p + 1" for i
  proof -
    have fin: "finite (children tokens (toknext p) i)" by (simp add: children_def)
    have ch: "children ?toks (toknext p + 1) i =
        (if toksuper p = int i then insert (toknext p) (children tokens (toknext p) i) else children tokens (toknext p) i)"
      by (auto simp: children_def old new tk less_Suc_eq)
    have notin: "toknext p \<notin> children tokens (toknext p) i" by (simp add: children_def)
    show ?thesis
    proof (cases "i = toknext p")
      case True
      have "children tokens (toknext p) i = {}"
        using I by (fastforce simp: children_def True tok_inv_def)
      moreover have "toksuper p \<noteq> int i" using I True by auto
      ultimately show ?thesis unfolding ch by (simp add: True new tk)
    next
      case False
      with that have i: "i < toknext p" by simp
      then have "t_size (?toks ! i) = t_size (tokens ! i) + (if toksuper p = int i then 1 else 0)"
        using grow_super_size [OF inv i] by (simp add: put_token_def)
      moreover have "t_size (tokens ! i) = int (card (children tokens (toknext p) i))" using I i by blast
      ultimately show ?thesis using fin notin unfolding ch by simp
    qed
  qed
  have "-1 \<le> ts" "ts < int (toknext p + 1)" using ts I by auto
  moreover have "toknext p + 1 \<le> length ?toks" using room by (simp add: put_token_def)
  ultimately show ?thesis
    unfolding jsmn_inv_def using all opens nest szs by simp
qed

section \<open>One character\<close>

lemma primitive_loop_Inr:
  "primitive_loop js p = Inr q \<Longrightarrow> p \<le> q \<and> q < length js \<and>
     js ! q \<in> {CHR 0x09, CHR 0x0D, CHR 0x0A, CHR '' '', CHR '','', CHR '']'', CHR ''}''}"
proof (induction js p rule: primitive_loop.induct)
  case (1 js p)
  from 1(2) show ?case
    by (subst (asm) primitive_loop.simps) (use 1(1) in \<open>fastforce split: if_splits\<close>)
qed

lemma string_loop_Inr: "string_loop js p = Inr q \<Longrightarrow> p \<le> q \<and> q < length js"
proof (induction js p rule: string_loop.induct)
  case (1 js p)
  have u: "p + 2 \<le> r" if "unicode_loop 4 js (p + 2) = Some r" for r using unicode_loop_le [OF that] by simp
  show ?case
  proof (cases "p < length js \<and> js ! p \<noteq> CHR 0x00 \<and> js ! p \<noteq> CHR 0x22")
    case True
    show ?thesis
    proof (cases "js ! p = CHR 0x5C \<and> p + 1 < length js")
      case esc: True
      show ?thesis
      proof (cases "js ! (p + 1) \<in> {CHR 0x22, CHR ''/'', CHR 0x5C, CHR ''b'', CHR ''f'', CHR ''r'', CHR ''n'', CHR ''t''}")
        case c: True
        with 1(4) True esc have "string_loop js (p + 2) = Inr q" by (subst (asm) string_loop.simps) simp
        with 1(1) True esc c show ?thesis by fastforce
      next
        case c: False
        with 1(4) True esc obtain r where r: "js ! (p + 1) = CHR ''u''" "unicode_loop 4 js (p + 2) = Some r"
          "string_loop js (r - 1 + 1) = Inr q"
          by (subst (asm) string_loop.simps) (auto split: if_splits option.splits)
        with 1(2) True esc c u [OF r(2)] show ?thesis by fastforce
      qed
    next
      case noesc: False
      with 1(4) True have "string_loop js (p + 1) = Inr q" by (subst (asm) string_loop.simps) auto
      with 1(3) True noesc show ?thesis by fastforce
    qed
  next
    case False
    with 1(4) show ?thesis by (subst (asm) string_loop.simps) (auto split: if_splits)
  qed
qed

text \<open>Allocation and the update of the superior token make up \<^const>\<open>put_token\<close>.\<close>

lemma alloc_put:
  assumes "jsmn_inv n p tokens"
  shows "jsmn_alloc_token p tokens = None \<longleftrightarrow> length tokens \<le> toknext p"
    and "jsmn_alloc_token p tokens = Some (i, p', tokens') \<Longrightarrow>
      i = toknext p \<and> p' = p\<lparr>toknext := toknext p + 1\<rparr> \<and> toknext p < length tokens \<and> length tokens' = length tokens \<and>
      (\<forall>tk. grow_super p (tokens'[i := tk]) = put_token p tokens tk) \<and>
      (\<forall>f. (grow_super p tokens')[i := f (tokens' ! i)] =
         put_token p tokens (f ((tokens ! i)\<lparr>t_start := -1, t_end := -1, t_size := 0, t_parent := -1\<rparr>)))"
proof -
  show "jsmn_alloc_token p tokens = None \<longleftrightarrow> length tokens \<le> toknext p"
    by (simp add: jsmn_alloc_token_def)
  assume al: "jsmn_alloc_token p tokens = Some (i, p', tokens')"
  have ts: "toksuper p = -1 \<or> nat (toksuper p) < toknext p"
    using assms by (auto simp: jsmn_inv_def)
  from al have eq: "i = toknext p" "p' = p\<lparr>toknext := toknext p + 1\<rparr>" "toknext p < length tokens"
    "tokens' = tokens[i := (tokens ! i)\<lparr>t_start := -1, t_end := -1, t_size := 0, t_parent := -1\<rparr>]"
    by (auto simp: jsmn_alloc_token_def split: if_splits)
  have "grow_super p (tokens'[i := tk]) = put_token p tokens tk" for tk
    using ts by (auto simp: eq grow_super_def put_token_def list_update_swap)
  moreover have "(grow_super p tokens')[i := f (tokens' ! i)] =
      put_token p tokens (f ((tokens ! i)\<lparr>t_start := -1, t_end := -1, t_size := 0, t_parent := -1\<rparr>))" for f
    using ts eq(3) by (auto simp: eq grow_super_def put_token_def list_update_swap)
  ultimately show "i = toknext p \<and> p' = p\<lparr>toknext := toknext p + 1\<rparr> \<and> toknext p < length tokens \<and> length tokens' = length tokens \<and>
      (\<forall>tk. grow_super p (tokens'[i := tk]) = put_token p tokens tk) \<and>
      (\<forall>f. (grow_super p tokens')[i := f (tokens' ! i)] =
         put_token p tokens (f ((tokens ! i)\<lparr>t_start := -1, t_end := -1, t_size := 0, t_parent := -1\<rparr>)))"
    using eq by auto
qed

text \<open>What one character does: it keeps the invariant, and \<open>count\<close> follows the tokens in use.\<close>

definition step_ok :: "string \<Rightarrow> jsmn_parser \<Rightarrow> jsmntok list \<Rightarrow> nat \<times> jsmn_result \<Rightarrow> bool" where
  "step_ok js p tokens r = (case r of (grown, err, p', tokens') \<Rightarrow>
     err = None \<longrightarrow> jsmn_inv (pos p' + 1) p' tokens' \<and> pos p \<le> pos p' \<and> pos p' < length js \<and>
       length tokens' = length tokens \<and> toknext p' = toknext p + grown)"

lemma jsmn_open_ok:
  assumes inv: "jsmn_inv (pos p) p tokens" and "pos p < length js"
  shows "step_ok js p tokens (1, jsmn_open c p tokens)"
proof (cases "jsmn_alloc_token p tokens")
  case None
  then show ?thesis by (simp add: jsmn_open_def step_ok_def)
next
  case (Some a)
  then obtain i p' tokens' where al: "jsmn_alloc_token p tokens = Some (i, p', tokens')" by (cases a) auto
  note A = alloc_put(2) [OF inv al]
  define tk where "tk = (tokens ! i)\<lparr>t_type := (if c = CHR ''{'' then JSMN_OBJECT else JSMN_ARRAY),
    t_start := int (pos p), t_end := -1, t_size := 0, t_parent := toksuper p\<rparr>"
  define f where "f t = t\<lparr>t_type := (if c = CHR ''{'' then JSMN_OBJECT else JSMN_ARRAY),
    t_start := int (pos p), t_parent := toksuper p\<rparr>" for t :: jsmntok
  have at: "grow_super p tokens' ! i = tokens' ! i" "t_parent (tokens' ! i) = -1"
    using A inv al by (auto simp: grow_super_def jsmn_inv_def jsmn_alloc_token_def)
  have "jsmn_open c p tokens = (None, p'\<lparr>toksuper := int (toknext p)\<rparr>, (grow_super p tokens')[i := f (tokens' ! i)])"
  proof (cases "toksuper p = -1")
    case True
    then have "f (tokens' ! i) = (tokens' ! i)\<lparr>t_type := (if c = CHR ''{'' then JSMN_OBJECT else JSMN_ARRAY), t_start := int (pos p)\<rparr>"
      using at(2) by (cases "tokens' ! i") (simp add: f_def)
    with True A at(1) show ?thesis by (simp add: jsmn_open_def al Let_def)
  next
    case False
    then have "jsmn_open c p tokens = (None, p'\<lparr>toksuper := int (toknext p)\<rparr>,
        (grow_super p tokens')[i := (tokens' ! i)\<lparr>t_parent := toksuper p, t_type := (if c = CHR ''{'' then JSMN_OBJECT else JSMN_ARRAY), t_start := int (pos p)\<rparr>])"
      using A at(1) by (simp add: jsmn_open_def al Let_def)
    moreover have "(tokens' ! i)\<lparr>t_parent := toksuper p, t_type := (if c = CHR ''{'' then JSMN_OBJECT else JSMN_ARRAY), t_start := int (pos p)\<rparr> = f (tokens' ! i)"
      by (simp add: f_def)
    ultimately show ?thesis by simp
  qed
  moreover have "(grow_super p tokens')[i := f (tokens' ! i)] = put_token p tokens tk"
  proof -
    have "f ((tokens ! i)\<lparr>t_start := -1, t_end := -1, t_size := 0, t_parent := -1\<rparr>) = tk" by (simp add: f_def tk_def)
    with A show ?thesis by metis
  qed
  ultimately have eq: "jsmn_open c p tokens = (None, p'\<lparr>toksuper := int (toknext p)\<rparr>, put_token p tokens tk)"
    by simp
  have "jsmn_inv (pos p + 1) (p\<lparr>toknext := toknext p + 1, toksuper := int (toknext p)\<rparr>) (put_token p tokens tk)"
    using A inv by (intro put_token_inv [OF inv]) (auto simp: tk_def tok_inv_def jsmn_inv_def)
  with A assms(2) show ?thesis by (simp add: eq step_ok_def put_token_def)
qed

text \<open>Strings and primitives are closed tokens.\<close>

lemma closed_token_ok:
  assumes inv: "jsmn_inv (pos p) p tokens"
    and al: "jsmn_alloc_token p tokens = Some (i, p', tokens')"
    and "pos p \<le> q" "q < length js" "int (pos p) \<le> s" "s \<le> e" "s \<le> int q" "e \<le> int q + 1"
  shows "step_ok js p tokens (add_size (None, p'\<lparr>pos := q\<rparr>,
    tokens'[i := (jsmn_fill_token ty s e (tokens' ! i))\<lparr>t_parent := toksuper p'\<rparr>]))"
proof -
  note A = alloc_put(2) [OF inv al]
  let ?tk = "(jsmn_fill_token ty s e (tokens' ! i))\<lparr>t_parent := toksuper p'\<rparr>"
  have g: "grow_super (p'\<lparr>pos := q\<rparr>) (tokens'[i := ?tk]) = put_token p tokens ?tk"
    using A by (auto simp: grow_super_def)
  have "jsmn_inv (q + 1) (p\<lparr>toknext := toknext p + 1, toksuper := toksuper p\<rparr>) (put_token p tokens ?tk)"
    using A inv assms(3-) by (intro put_token_inv [OF inv]) (auto simp: jsmn_fill_token_def tok_inv_def jsmn_inv_def)
  moreover have "p\<lparr>toknext := toknext p + 1, toksuper := toksuper p\<rparr> = p\<lparr>toknext := toknext p + 1\<rparr>" by simp
  ultimately show ?thesis
    using A assms(3,4) unfolding step_ok_def add_size_def by (simp only: g split: prod.split) auto
qed

lemma jsmn_inv_super:
  assumes "jsmn_inv n p tokens" and "-1 \<le> ts" "ts < int (toknext p)"
    and "\<And>k. k < toknext p \<Longrightarrow> t_end (tokens ! k) = -1 \<Longrightarrow> int k \<le> ts"
  shows "jsmn_inv n (p\<lparr>toksuper := ts\<rparr>) tokens"
  using assms unfolding jsmn_inv_def by simp

lemma jsmn_close_inv:
  assumes inv: "jsmn_inv n p tokens" and t: "t < toknext p" "t_end (tokens ! t) = -1"
    and last: "\<And>k. k < toknext p \<Longrightarrow> t_end (tokens ! k) = -1 \<Longrightarrow> k \<le> t"
  shows "jsmn_inv (n + 1) (p\<lparr>toksuper := t_parent (tokens ! t)\<rparr>) (tokens[t := (tokens ! t)\<lparr>t_end := int n + 1\<rparr>])"
proof -
  let ?toks = "tokens[t := (tokens ! t)\<lparr>t_end := int n + 1\<rparr>]"
  note I = inv [unfolded jsmn_inv_def]
  have tl: "t < length tokens" using I t(1) by auto
  have f: "t_type (?toks ! i) = t_type (tokens ! i)" "t_start (?toks ! i) = t_start (tokens ! i)"
    "t_size (?toks ! i) = t_size (tokens ! i)" "t_parent (?toks ! i) = t_parent (tokens ! i)"
    "t_end (?toks ! i) = (if i = t then int n + 1 else t_end (tokens ! i))" for i
    using tl by (cases "i = t"; simp)+
  have tt: "tok_inv n i (tokens ! i)" if "i < toknext p" for i using I that by blast
  have all: "tok_inv (n + 1) i (?toks ! i)" if "i < toknext p" for i
    using tt [OF that] by (auto simp: tok_inv_def f)
  have opens: "int k \<le> t_parent (tokens ! t) \<and> (\<forall>j. k < j \<and> j < toknext p \<longrightarrow> int k \<le> t_parent (?toks ! j))"
    if k: "k < toknext p" and o: "t_end (?toks ! k) = -1" for k
  proof -
    from o have ko: "k \<noteq> t" "t_end (tokens ! k) = -1" by (auto simp: f split: if_splits)
    then have "k < t" using last [OF k] by simp
    with I k ko t show ?thesis by (simp add: f)
  qed
  have nest: "nested (?toks ! i) (?toks ! j)" if "i < j" "j < toknext p" for i j
  proof -
    have ij: "nested (tokens ! i) (tokens ! j)" using I that by blast
    have "t_end (tokens ! j) \<noteq> -1" if "i = t" using last [of j] \<open>i < j\<close> \<open>j < toknext p\<close> that by auto
    then show ?thesis
      using ij tt [OF that(2)] t(2) that by (auto simp: nested_def f tok_inv_def)
  qed
  have "children ?toks (toknext p) i = children tokens (toknext p) i" for i by (simp add: children_def f)
  moreover have "-1 \<le> t_parent (tokens ! t)" "t_parent (tokens ! t) < int (toknext p)"
    using tt [OF t(1)] t(1) by (auto simp: tok_inv_def)
  ultimately show ?thesis
    unfolding jsmn_inv_def using I all opens nest by (simp add: f)
qed

lemma jsmn_close_ok:
  assumes inv: "jsmn_inv (pos p) p tokens" and "pos p < length js" and "t < toknext p"
    and "\<And>k. k < toknext p \<Longrightarrow> t_end (tokens ! k) = -1 \<Longrightarrow> k \<le> t"
  shows "\<exists>r. jsmn_close ty p tokens t = Some r \<and> step_ok js p tokens (0, r)"
  using assms(3,4)
proof (induction t rule: less_induct)
  case (less t)
  have tt: "tok_inv (pos p) t (tokens ! t)" using inv less.prems(1) by (auto simp: jsmn_inv_def)
  have inv': "jsmn_inv (Suc (pos p)) p tokens" using inv by (rule jsmn_inv_mono) simp
  show ?case
  proof (cases "t_end (tokens ! t) = -1")
    case True
    have st: "t_start (tokens ! t) \<noteq> -1" using tt by (simp add: tok_inv_def)
    show ?thesis
    proof (cases "t_type (tokens ! t) = ty")
      case eq: True
      have "step_ok js p tokens (0, None, p\<lparr>toksuper := t_parent (tokens ! t)\<rparr>, tokens[t := (tokens ! t)\<lparr>t_end := int (pos p) + 1\<rparr>])"
        using jsmn_close_inv [OF inv less.prems(1) True less.prems(2)] assms(2) by (simp add: step_ok_def)
      with True st eq show ?thesis by (subst jsmn_close.simps) simp
    next
      case ne: False
      with True st show ?thesis by (subst jsmn_close.simps) (simp add: step_ok_def)
    qed
  next
    case closed: False
    show ?thesis
    proof (cases "t_parent (tokens ! t) = -1")
      case True
      with closed inv' assms(2) show ?thesis by (subst jsmn_close.simps) (simp add: step_ok_def)
    next
      case False
      define u where "u = nat (t_parent (tokens ! t))"
      have u: "u < t" "t_parent (tokens ! t) = int u" using False tt by (auto simp: u_def tok_inv_def)
      have "k \<le> u" if "k < toknext p" "t_end (tokens ! k) = -1" for k
      proof -
        have "k < t" using less.prems(2) [OF that] closed that(2) by (cases "k = t") auto
        with inv that less.prems(1) have "int k \<le> t_parent (tokens ! t)" unfolding jsmn_inv_def by blast
        with u show ?thesis by simp
      qed
      with less.IH [OF u(1)] u less.prems(1) obtain r where
        "jsmn_close ty p tokens u = Some r" "step_ok js p tokens (0, r)" by auto
      with closed False show ?thesis by (subst jsmn_close.simps) (simp add: u_def)
    qed
  qed
qed

lemma jsmn_comma_inv:
  assumes inv: "jsmn_inv n p tokens"
  shows "jsmn_inv n (jsmn_comma p tokens) tokens"
proof (cases "toksuper p \<noteq> -1 \<and> t_type (tokens ! nat (toksuper p)) \<noteq> JSMN_ARRAY \<and> t_type (tokens ! nat (toksuper p)) \<noteq> JSMN_OBJECT")
  case True
  define u where "u = nat (toksuper p)"
  have u: "toksuper p = int u" "u < toknext p" using True inv by (auto simp: u_def jsmn_inv_def)
  then have tu: "tok_inv n u (tokens ! u)" using inv by (auto simp: jsmn_inv_def)
  have op: "int k \<le> t_parent (tokens ! u)" if k: "k < toknext p" "t_end (tokens ! k) = -1" for k
  proof -
    have "k \<noteq> u" using True k(2) tu by (auto simp: tok_inv_def u_def)
    moreover have "k \<le> u" using inv k u unfolding jsmn_inv_def by force
    ultimately have "k < u" by simp
    with inv k u show ?thesis unfolding jsmn_inv_def by blast
  qed
  show ?thesis
    using True tu u op by (simp add: jsmn_comma_def) (intro jsmn_inv_super [OF inv]; auto simp: tok_inv_def)
qed (auto simp: jsmn_comma_def inv)

lemma if_SomeI:
  assumes "P \<Longrightarrow> \<exists>r. x = Some r \<and> Q r" and "\<not> P \<Longrightarrow> \<exists>r. y = Some r \<and> Q r"
  shows "\<exists>r. (if P then x else y) = Some r \<and> Q r"
  using assms by simp

lemma jsmn_char_ok:
  assumes inv: "jsmn_inv (pos p) p tokens" and len: "pos p < length js"
  shows "\<exists>r. jsmn_char js p tokens = Some r \<and> step_ok js p tokens r"
proof -
  have inv': "jsmn_inv (Suc (pos p)) p tokens" using inv by (rule jsmn_inv_mono) simp
  have op: "step_ok js p tokens (1, jsmn_open c p tokens)" for c by (rule jsmn_open_ok [OF inv len])
  have cl: "\<exists>r. jsmn_close ty p tokens (toknext p - 1) = Some r \<and> step_ok js p tokens (0, r)"
    if "\<not> toknext p < 1" for ty
    using that by (intro jsmn_close_ok [OF inv len]) auto
  have str: "step_ok js p tokens (add_size (jsmn_parse_string p js tokens))"
  proof (cases "string_loop js (pos p + 1)")
    case (Inr q)
    from string_loop_Inr [OF this] Inr show ?thesis
    proof (cases "jsmn_alloc_token p tokens")
      case (Some a)
      with string_loop_Inr [OF Inr] Inr show ?thesis
        using closed_token_ok [OF inv, of _ _ _ q js "int (pos p) + 1" "int q"]
        by (cases a) (simp add: jsmn_parse_string_def Let_def)
    qed (simp add: jsmn_parse_string_def step_ok_def add_size_def Let_def Inr)
  qed (simp add: jsmn_parse_string_def step_ok_def add_size_def)
  have prim: "step_ok js p tokens (add_size (jsmn_parse_primitive p js tokens))"
    if "js ! pos p \<notin> {CHR 0x09, CHR 0x0D, CHR 0x0A, CHR '' '', CHR '','', CHR '']'', CHR ''}''}"
  proof (cases "primitive_loop js (pos p)")
    case (Inr q)
    from primitive_loop_Inr [OF this] that have "pos p < q" "q < length js" by (cases "q = pos p"; auto)+
    then show ?thesis
    proof (cases "jsmn_alloc_token p tokens")
      case (Some a)
      with \<open>pos p < q\<close> \<open>q < length js\<close> Inr show ?thesis
        using closed_token_ok [OF inv, of _ _ _ "q - 1" js "int (pos p)" "int q"]
        by (cases a) (simp add: jsmn_parse_primitive_def Let_def)
    qed (simp add: jsmn_parse_primitive_def step_ok_def add_size_def Let_def Inr)
  qed (simp add: jsmn_parse_primitive_def step_ok_def add_size_def)
  have colon: "jsmn_inv (Suc (pos p)) (p\<lparr>toksuper := int (toknext p) - 1\<rparr>) tokens"
    by (rule jsmn_inv_super [OF inv']) auto
  have comma: "jsmn_inv (Suc (pos p)) (jsmn_comma p tokens) tokens" by (rule jsmn_comma_inv [OF inv'])
  have comma2: "pos (jsmn_comma p tokens) = pos p" "toknext (jsmn_comma p tokens) = toknext p"
    by (simp_all add: jsmn_comma_def)
  show ?thesis
    unfolding jsmn_char_def Let_def
  proof (intro if_SomeI)
    assume "\<not> toknext p < 1"
    then obtain r where "jsmn_close (if js ! pos p = CHR ''}'' then JSMN_OBJECT else JSMN_ARRAY) p tokens (toknext p - 1) = Some r"
      "step_ok js p tokens (0, r)" using cl by blast
    then show "\<exists>r. map_option (Pair 0) (jsmn_close (if js ! pos p = CHR ''}'' then JSMN_OBJECT else JSMN_ARRAY) p tokens (toknext p - 1)) = Some r
      \<and> step_ok js p tokens r" by simp
  next
    assume "js ! pos p \<in> set ''-0123456789tfn''"
    then have "js ! pos p \<notin> {CHR 0x09, CHR 0x0D, CHR 0x0A, CHR '' '', CHR '','', CHR '']'', CHR ''}''}" by auto
    with prim show "\<exists>r. Some (add_size (jsmn_parse_primitive p js tokens)) = Some r \<and> step_ok js p tokens r" by simp
  qed (use op str colon comma comma2 inv' len in \<open>simp_all add: step_ok_def\<close>)
qed

text \<open>The parser returns, and keeps the invariant when it accepts.\<close>

lemma jsmn_loop_ok:
  assumes "jsmn_inv (pos p) p tokens" and "pos p \<le> length js" and "count = toknext p"
  shows "\<exists>res p' tokens'. jsmn_loop js count p tokens = Some (res, p', tokens') \<and>
    (\<forall>n. res = Inr n \<longrightarrow> jsmn_inv (length js) p' tokens' \<and> n = toknext p' \<and> \<not> unmatched p' tokens' \<and>
       length tokens' = length tokens)"
  using assms
proof (induction "length js - pos p" arbitrary: p tokens count rule: less_induct)
  case less
  show ?case
  proof (cases "pos p < length js \<and> js ! pos p \<noteq> CHR 0x00")
    case True
    from jsmn_char_ok [OF less.prems(1)] True obtain grown err p1 tokens1 where
      c: "jsmn_char js p tokens = Some (grown, err, p1, tokens1)" "step_ok js p tokens (grown, err, p1, tokens1)"
      by (metis prod_cases4)
    show ?thesis
    proof (cases err)
      case None
      let ?p = "p1\<lparr>pos := pos p1 + 1\<rparr>"
      from c(2) None have k: "jsmn_inv (pos p1 + 1) p1 tokens1" "pos p \<le> pos p1" "pos p1 < length js"
        "length tokens1 = length tokens" "toknext p1 = toknext p + grown" by (auto simp: step_ok_def)
      have "\<exists>res p' tokens'. jsmn_loop js (count + grown) ?p tokens1 = Some (res, p', tokens') \<and>
        (\<forall>n. res = Inr n \<longrightarrow> jsmn_inv (length js) p' tokens' \<and> n = toknext p' \<and> \<not> unmatched p' tokens' \<and>
          length tokens' = length tokens1)"
        using k less.prems(3) True by (intro less.hyps) auto
      then show ?thesis using True c(1) None k(4) by (subst jsmn_loop.simps) auto
    next
      case (Some e)
      then show ?thesis using True c(1) by (subst jsmn_loop.simps) auto
    qed
  next
    case False
    have "jsmn_inv (length js) p tokens" using less.prems(1,2) by (rule jsmn_inv_mono)
    with False less.prems(3) show ?thesis by (subst jsmn_loop.simps) auto
  qed
qed

section \<open>Accepted texts\<close>

text \<open>The tokens \<open>0, ..., n - 1\<close> of an accepted text of length \<open>len\<close>.\<close>

definition tokens_wf :: "nat \<Rightarrow> nat \<Rightarrow> jsmntok list \<Rightarrow> bool" where
  "tokens_wf len n tokens \<longleftrightarrow> n \<le> length tokens \<and>
     (\<forall>i < n. -1 \<le> t_parent (tokens ! i) \<and> t_parent (tokens ! i) < int i \<and>
        0 \<le> t_start (tokens ! i) \<and> t_start (tokens ! i) \<le> t_end (tokens ! i) \<and> t_end (tokens ! i) \<le> int len \<and>
        t_size (tokens ! i) = int (card (children tokens n i))) \<and>
     (\<forall>i j. i < j \<and> j < n \<longrightarrow> t_start (tokens ! i) < t_start (tokens ! j) \<and>
        (t_end (tokens ! i) \<le> t_start (tokens ! j) \<or> t_end (tokens ! j) \<le> t_end (tokens ! i)))"

lemma jsmn_inv_tokens_wf:
  assumes inv: "jsmn_inv len p tokens" and "\<not> unmatched p tokens"
  shows "tokens_wf len (toknext p) tokens"
proof -
  note I = inv [unfolded jsmn_inv_def]
  have t: "tok_inv len i (tokens ! i)" if "i < toknext p" for i using I that by blast
  have closed: "t_end (tokens ! i) \<noteq> -1" if i: "i < toknext p" for i
  proof -
    have "tokens ! i \<in> set (take (toknext p) tokens)"
      using I i by (metis (no_types) length_take min.absorb2 nth_mem nth_take)
    then show ?thesis using assms(2) t [OF i] by (auto simp: unmatched_def list_ex_iff tok_inv_def)
  qed
  have "nested (tokens ! i) (tokens ! j)" if "i < j" "j < toknext p" for i j using I that by blast
  then show ?thesis
    unfolding tokens_wf_def using I t closed by (fastforce simp: tok_inv_def nested_def)
qed

lemma jsmn_parse_total:
  "\<exists>res p' tokens'. jsmn_parse jsmn_init js tokens = Some (res, p', tokens') \<and>
     (\<forall>n. res = Inr n \<longrightarrow> length tokens' = length tokens \<and> tokens_wf (length js) n tokens')"
proof -
  have "\<exists>res p' tokens'. jsmn_parse jsmn_init js tokens = Some (res, p', tokens') \<and>
    (\<forall>n. res = Inr n \<longrightarrow> jsmn_inv (length js) p' tokens' \<and> n = toknext p' \<and> \<not> unmatched p' tokens' \<and>
       length tokens' = length tokens)"
    unfolding jsmn_parse_def by (rule jsmn_loop_ok) (simp_all, simp_all add: jsmn_init_def)
  then show ?thesis by (metis jsmn_inv_tokens_wf)
qed

lemma consume_loop_spec:
  "i \<le> consume_loop tokens e i \<and> (\<forall>j. i \<le> j \<and> j < consume_loop tokens e i \<longrightarrow> j < length tokens \<and> t_start (tokens ! j) < e) \<and>
   (consume_loop tokens e i < length tokens \<longrightarrow> e \<le> t_start (tokens ! consume_loop tokens e i)) \<and>
   (i \<le> length tokens \<longrightarrow> consume_loop tokens e i \<le> length tokens)"
proof (induction tokens e i rule: consume_loop.induct)
  case (1 tokens e i)
  show ?case
  proof (cases "i < length tokens \<and> t_start (tokens ! i) < e")
    case True
    then have eq: "consume_loop tokens e i = consume_loop tokens e (i + 1)" by (subst consume_loop.simps) simp
    from True 1 have IH: "i + 1 \<le> consume_loop tokens e (i + 1)"
      "\<forall>j. i + 1 \<le> j \<and> j < consume_loop tokens e (i + 1) \<longrightarrow> j < length tokens \<and> t_start (tokens ! j) < e"
      "consume_loop tokens e (i + 1) < length tokens \<longrightarrow> e \<le> t_start (tokens ! consume_loop tokens e (i + 1))"
      "consume_loop tokens e (i + 1) \<le> length tokens" by auto
    have "j < length tokens \<and> t_start (tokens ! j) < e" if "i \<le> j" "j < consume_loop tokens e (i + 1)" for j
      using IH(2) that True by (cases "j = i") auto
    with IH show ?thesis unfolding eq by auto
  next
    case False
    then have "consume_loop tokens e i = i" by (subst consume_loop.simps) auto
    with False show ?thesis by auto
  qed
qed

text \<open>Skipping a token skips the tokens inside of it and no other.\<close>

lemma consume_recursive_json_spec:
  assumes wf: "tokens_wf len n tokens" and idx: "idx < n"
    and container: "t_type (tokens ! idx) \<in> {JSMN_OBJECT, JSMN_ARRAY}"
  defines "r \<equiv> consume_recursive_json tokens idx"
  shows "idx < r" and "r \<le> length tokens"
    and "\<And>j. idx < j \<Longrightarrow> j < n \<Longrightarrow> j < r \<longleftrightarrow> t_end (tokens ! j) \<le> t_end (tokens ! idx) \<and> t_start (tokens ! j) < t_end (tokens ! idx)"
proof -
  let ?e = "t_end (tokens ! idx)"
  have r: "r = consume_loop tokens ?e (idx + 1)" using container by (auto simp: r_def consume_recursive_json_def)
  note C = consume_loop_spec [of "idx + 1" tokens ?e, folded r]
  have n: "n \<le> length tokens" using wf by (simp add: tokens_wf_def)
  show "idx < r" "r \<le> length tokens" using C idx n by auto
  fix j
  assume j: "idx < j" "j < n"
  with wf have ne: "?e \<le> t_start (tokens ! j) \<or> t_end (tokens ! j) \<le> ?e" by (auto simp: tokens_wf_def)
  show "j < r \<longleftrightarrow> t_end (tokens ! j) \<le> ?e \<and> t_start (tokens ! j) < ?e"
  proof
    assume "j < r"
    with C j have "t_start (tokens ! j) < ?e" by auto
    with ne show "t_end (tokens ! j) \<le> ?e \<and> t_start (tokens ! j) < ?e" by auto
  next
    assume ins: "t_end (tokens ! j) \<le> ?e \<and> t_start (tokens ! j) < ?e"
    show "j < r"
    proof (rule ccontr)
      assume "\<not> j < r"
      then have "r \<le> j" by simp
      with C j n have "?e \<le> t_start (tokens ! r)" by auto
      moreover have "t_start (tokens ! r) \<le> t_start (tokens ! j)"
        using wf j \<open>r \<le> j\<close> unfolding tokens_wf_def le_less by blast
      ultimately show False using ins by simp
    qed
  qed
qed

section \<open>Resuming the parser\<close>

text \<open>
  The targets parser feeds a text in parts and goes on with the tokens of earlier parts, also after an
  error.  Then only the links between the tokens are sound; they are enough for the parser to return.
\<close>

definition links_ok :: "jsmn_parser \<Rightarrow> jsmntok list \<Rightarrow> bool" where
  "links_ok p tokens \<longleftrightarrow> toknext p \<le> length tokens \<and> -1 \<le> toksuper p \<and> toksuper p < int (toknext p) \<and>
     (\<forall>i < toknext p. -1 \<le> t_parent (tokens ! i) \<and> t_parent (tokens ! i) < int i)"

definition resumes :: "jsmn_parser \<Rightarrow> jsmntok list \<Rightarrow> jsmn_parser \<Rightarrow> jsmntok list \<Rightarrow> bool" where
  "resumes p tokens p' tokens' \<longleftrightarrow> links_ok p' tokens' \<and> length tokens' = length tokens \<and> toknext p \<le> toknext p' \<and> pos p \<le> pos p'"

lemma links_ok_pos [simp]: "links_ok (p\<lparr>pos := q\<rparr>) tokens = links_ok p tokens"
  by (simp add: links_ok_def)

lemma resumes_refl: "links_ok p tokens \<Longrightarrow> resumes p tokens p tokens"
  by (simp add: resumes_def)

lemma links_ok_grow [simp]: "links_ok p (grow_super q tokens) = links_ok p tokens"
  by (simp add: links_ok_def)

lemma links_ok_new:
  assumes "links_ok p tokens" and "toknext p < length tokens"
    and "-1 \<le> t_parent tk" "t_parent tk < int (toknext p)" and "-1 \<le> ts" "ts \<le> int (toknext p)"
  shows "links_ok (p\<lparr>toknext := toknext p + 1, toksuper := ts\<rparr>) (tokens[toknext p := tk])"
  using assms by (auto simp: links_ok_def nth_list_update less_Suc_eq)

lemma links_ok_set:
  assumes "links_ok p tokens" and "t_parent tk = t_parent (tokens ! i)"
  shows "links_ok p (tokens[i := tk])"
  using assms by (cases "i < length tokens") (auto simp: links_ok_def nth_list_update)

lemma jsmn_alloc_links:
  assumes "links_ok p tokens" and "jsmn_alloc_token p tokens = Some (i, p', tokens')"
  shows "i = toknext p" "p' = p\<lparr>toknext := toknext p + 1\<rparr>" "toknext p < length tokens" "length tokens' = length tokens"
    "-1 \<le> ts \<Longrightarrow> ts \<le> int (toknext p) \<Longrightarrow> -1 \<le> t_parent tk \<Longrightarrow> t_parent tk < int (toknext p) \<Longrightarrow>
      links_ok (p\<lparr>toknext := toknext p + 1, toksuper := ts\<rparr>) (tokens'[i := tk])"
proof -
  from assms(2) show eq: "i = toknext p" "p' = p\<lparr>toknext := toknext p + 1\<rparr>" "toknext p < length tokens" "length tokens' = length tokens"
    by (auto simp: jsmn_alloc_token_def split: if_splits)
  have "tokens'[i := tk] = tokens[i := tk]" using assms(2) by (auto simp: jsmn_alloc_token_def split: if_splits)
  then show "-1 \<le> ts \<Longrightarrow> ts \<le> int (toknext p) \<Longrightarrow> -1 \<le> t_parent tk \<Longrightarrow> t_parent tk < int (toknext p) \<Longrightarrow>
      links_ok (p\<lparr>toknext := toknext p + 1, toksuper := ts\<rparr>) (tokens'[i := tk])"
    using links_ok_new [OF assms(1) eq(3)] by (simp add: eq)
qed

lemma jsmn_open_links:
  assumes l: "links_ok p tokens" and "jsmn_open c p tokens = (err, p', tokens')"
  shows "resumes p tokens p' tokens'"
proof (cases "jsmn_alloc_token p tokens")
  case None
  then show ?thesis using assms by (simp add: jsmn_open_def resumes_refl)
next
  case (Some a)
  obtain i q tokens1 where al: "jsmn_alloc_token p tokens = Some (i, q, tokens1)" using Some by (cases a) auto
  note A = jsmn_alloc_links [OF l al]
  have "links_ok (p\<lparr>toknext := toknext p + 1, toksuper := int (toknext p)\<rparr>) (tokens1[i := (tokens1 ! i)\<lparr>t_parent := toksuper p\<rparr>])"
    using l by (intro A(5)) (auto simp: links_ok_def)
  moreover have "t_parent (tokens1 ! i) = -1" using al by (auto simp: jsmn_alloc_token_def split: if_splits)
  ultimately have "links_ok (p\<lparr>toknext := toknext p + 1, toksuper := int (toknext p)\<rparr>) tokens'"
    "p' = p\<lparr>toknext := toknext p + 1, toksuper := int (toknext p)\<rparr>" "length tokens' = length tokens"
    using assms(2) A(1-4) by (auto simp: jsmn_open_def al Let_def links_ok_def nth_list_update split: if_splits)
  then show ?thesis by (simp add: resumes_def)
qed

lemma closed_token_links:
  assumes l: "links_ok p tokens" and al: "jsmn_alloc_token p tokens = Some (i, q, tokens1)" and "pos p \<le> r"
  shows "resumes p tokens (q\<lparr>pos := r\<rparr>) (grow_super u (tokens1[i := tk\<lparr>t_parent := toksuper q\<rparr>]))"
proof -
  note A = jsmn_alloc_links [OF l al]
  have "links_ok (p\<lparr>toknext := toknext p + 1, toksuper := toksuper p\<rparr>) (tokens1[i := tk\<lparr>t_parent := toksuper q\<rparr>])"
    using l A(2) by (intro A(5)) (auto simp: links_ok_def)
  then show ?thesis using A(1-4) assms(3) by (simp add: resumes_def)
qed

lemma add_size_links:
  assumes "links_ok p tokens"
  shows "case add_size (jsmn_parse_string p js tokens) of (g, err, p', tokens') \<Rightarrow> resumes p tokens p' tokens'"
    and "js ! pos p \<notin> {CHR 0x09, CHR 0x0D, CHR 0x0A, CHR '' '', CHR '','', CHR '']'', CHR ''}''} \<Longrightarrow>
      case add_size (jsmn_parse_primitive p js tokens) of (g, err, p', tokens') \<Rightarrow> resumes p tokens p' tokens'"
proof -
  have id: "resumes p tokens (p\<lparr>pos := pos p\<rparr>) tokens" "resumes p tokens p tokens"
    using assms by (auto simp: resumes_def)
  show "case add_size (jsmn_parse_string p js tokens) of (g, err, p', tokens') \<Rightarrow> resumes p tokens p' tokens'"
  proof (cases "string_loop js (pos p + 1)")
    case (Inr q)
    from string_loop_Inr [OF this] have "pos p \<le> q" by simp
    with Inr closed_token_links [OF assms] id show ?thesis
      by (cases "jsmn_alloc_token p tokens")
        (auto simp: jsmn_parse_string_def add_size_def Let_def split: prod.splits)
  qed (use id in \<open>simp add: jsmn_parse_string_def add_size_def Let_def\<close>)
  assume nd: "js ! pos p \<notin> {CHR 0x09, CHR 0x0D, CHR 0x0A, CHR '' '', CHR '','', CHR '']'', CHR ''}''}"
  show "case add_size (jsmn_parse_primitive p js tokens) of (g, err, p', tokens') \<Rightarrow> resumes p tokens p' tokens'"
  proof (cases "primitive_loop js (pos p)")
    case (Inr q)
    from primitive_loop_Inr [OF this] nd have "pos p < q" by (cases "q = pos p") auto
    with Inr closed_token_links [OF assms, of _ _ _ "q - 1"] id show ?thesis
      by (cases "jsmn_alloc_token p tokens")
        (auto simp: jsmn_parse_primitive_def add_size_def Let_def split: prod.splits)
  qed (use id in \<open>simp add: jsmn_parse_primitive_def add_size_def Let_def\<close>)
qed

lemma jsmn_close_links:
  assumes l: "links_ok p tokens" and "t < toknext p"
  shows "\<exists>err p' tokens'. jsmn_close ty p tokens t = Some (err, p', tokens') \<and> resumes p tokens p' tokens'"
  using assms(2)
proof (induction t rule: less_induct)
  case (less t)
  have par: "-1 \<le> t_parent (tokens ! t)" "t_parent (tokens ! t) < int t" using l less.prems by (auto simp: links_ok_def)
  have super: "links_ok (p\<lparr>toksuper := t_parent (tokens ! t)\<rparr>) tokens" using l par less.prems by (auto simp: links_ok_def)
  show ?case
  proof (cases "t_start (tokens ! t) \<noteq> -1 \<and> t_end (tokens ! t) = -1")
    case True
    have "resumes p tokens (p\<lparr>toksuper := t_parent (tokens ! t)\<rparr>) (tokens[t := (tokens ! t)\<lparr>t_end := int (pos p) + 1\<rparr>])"
      using links_ok_set [OF super, of "(tokens ! t)\<lparr>t_end := int (pos p) + 1\<rparr>" t] by (simp add: resumes_def)
    with True l show ?thesis
      by (subst jsmn_close.simps) (cases "t_type (tokens ! t) = ty"; simp add: resumes_refl)
  next
    case closed: False
    show ?thesis
    proof (cases "t_parent (tokens ! t) = -1")
      case True
      with closed l show ?thesis by (subst jsmn_close.simps) (auto simp: resumes_refl)
    next
      case False
      define u where "u = nat (t_parent (tokens ! t))"
      have "u < t" "u < toknext p" using par False less.prems by (auto simp: u_def)
      from less.IH [OF this] closed False show ?thesis by (subst jsmn_close.simps) (auto simp: u_def)
    qed
  qed
qed

lemma jsmn_char_links:
  assumes l: "links_ok p tokens"
  shows "\<exists>r. jsmn_char js p tokens = Some r \<and> (case r of (g, err, p', tokens') \<Rightarrow> resumes p tokens p' tokens')"
  unfolding jsmn_char_def Let_def
proof (intro if_SomeI)
  show "\<exists>r. Some (1, jsmn_open (js ! pos p) p tokens) = Some r \<and> (case r of (g, err, p', tokens') \<Rightarrow> resumes p tokens p' tokens')"
    using jsmn_open_links [OF l] by (cases "jsmn_open (js ! pos p) p tokens") auto
next
  assume "\<not> toknext p < 1"
  then show "\<exists>r. map_option (Pair 0) (jsmn_close (if js ! pos p = CHR ''}'' then JSMN_OBJECT else JSMN_ARRAY) p tokens (toknext p - 1)) = Some r
      \<and> (case r of (g, err, p', tokens') \<Rightarrow> resumes p tokens p' tokens')"
    using jsmn_close_links [OF l, of "toknext p - 1"] by fastforce
next
  assume "js ! pos p \<in> set ''-0123456789tfn''"
  then have "js ! pos p \<notin> {CHR 0x09, CHR 0x0D, CHR 0x0A, CHR '' '', CHR '','', CHR '']'', CHR ''}''}" by auto
  with add_size_links(2) [OF l]
  show "\<exists>r. Some (add_size (jsmn_parse_primitive p js tokens)) = Some r \<and> (case r of (g, err, p', tokens') \<Rightarrow> resumes p tokens p' tokens')"
    by simp
next
  show "\<exists>r. Some (0, None, jsmn_comma p tokens, tokens) = Some r \<and> (case r of (g, err, p', tokens') \<Rightarrow> resumes p tokens p' tokens')"
  proof (cases "toksuper p = -1")
    case False
    then have "nat (toksuper p) < toknext p" using l by (auto simp: links_ok_def)
    then have "-1 \<le> t_parent (tokens ! nat (toksuper p)) \<and> t_parent (tokens ! nat (toksuper p)) < int (toknext p)"
      using l by (auto simp: links_ok_def dest!: spec [of _ "nat (toksuper p)"] split: if_splits)
    with l show ?thesis by (simp add: jsmn_comma_def resumes_def links_ok_def)
  qed (use l in \<open>simp add: jsmn_comma_def resumes_refl\<close>)
qed (use l add_size_links(1) [OF l] in \<open>simp_all add: resumes_def links_ok_def\<close>)

lemma jsmn_loop_links:
  assumes "links_ok p tokens"
  shows "\<exists>res p' tokens'. jsmn_loop js count p tokens = Some (res, p', tokens') \<and> resumes p tokens p' tokens'"
  using assms
proof (induction "length js - pos p" arbitrary: p tokens count rule: less_induct)
  case less
  show ?case
  proof (cases "pos p < length js \<and> js ! pos p \<noteq> CHR 0x00")
    case True
    from jsmn_char_links [OF less.prems] obtain grown err p1 tokens1 where
      c: "jsmn_char js p tokens = Some (grown, err, p1, tokens1)" "resumes p tokens p1 tokens1"
      by (metis (no_types, lifting) case_prod_conv prod_cases4)
    show ?thesis
    proof (cases err)
      case None
      let ?p = "p1\<lparr>pos := pos p1 + 1\<rparr>"
      have "\<exists>res p' tokens'. jsmn_loop js (count + grown) ?p tokens1 = Some (res, p', tokens') \<and> resumes ?p tokens1 p' tokens'"
        using c(2) True by (intro less.hyps) (auto simp: resumes_def)
      then show ?thesis using True c None by (subst jsmn_loop.simps) (fastforce simp: resumes_def)
    next
      case (Some e)
      then show ?thesis using True c by (subst jsmn_loop.simps) auto
    qed
  next
    case False
    with less.prems show ?thesis by (subst jsmn_loop.simps) (auto simp: resumes_refl)
  qed
qed

end
