(* ===== verification/Uptiny_Signatures.thy ===== *)
theory Uptiny_Signatures
  imports Uptiny_Base64 Jsmn
begin

text \<open>
  Signature lists (\<open>partial/libuptiny/signatures.c\<close>) and the platform interface that the client is
  written against (\<open>crypto_api.h\<close>, \<open>state_api.h\<close>, \<open>common_data_api.h\<close>).

  A function here returns \<^const>\<open>None\<close> when the C code writes outside of an object.  A read outside of the token
  pool gives an unspecified token (\<open>pool ! i\<close> for \<open>i \<ge> length pool\<close>), so that a statement about an accepted
  text holds whatever is read there.
\<close>

section \<open>The platform interface\<close>

definition CRYPTO_KEYVAL_LEN :: nat where "CRYPTO_KEYVAL_LEN = 32"
definition CRYPTO_MAX_SIGNATURE_LEN :: nat where "CRYPTO_MAX_SIGNATURE_LEN = 64"
definition CRYPTO_MAX_HASH_LEN :: nat where "CRYPTO_MAX_HASH_LEN = 64"
definition ROOT_MAX_KEYS :: nat where "ROOT_MAX_KEYS = 16"
definition TARGETS_MAX_HASHES :: nat where "TARGETS_MAX_HASHES = 2"
definition TARGETS_MAX_NAME_LENGTH :: nat where "TARGETS_MAX_NAME_LENGTH = 63"

datatype crypto_hash_algorithm = CRYPTO_HASH_UNKNOWN | CRYPTO_HASH_SHA512

record crypto_hash =
  hash_alg :: crypto_hash_algorithm
  hash_bytes :: "byte list"

record crypto_key_and_signature =
  s_key :: crypto_key
  s_sig :: "byte list"

datatype uptane_role = ROLE_ROOT | ROLE_TARGETS

text \<open>The counters \<open>root_keys_num\<close> and \<open>targets_keys_num\<close> are the lengths of the lists.\<close>

record uptane_root =
  r_version :: int
  r_expires :: uptane_time
  root_threshold :: int
  root_keys :: "crypto_key list"
  targets_threshold :: int
  targets_keys :: "crypto_key list"

text \<open>
  What the platform provides.  \<open>verify\<close> is the result of \<open>crypto_verify_init\<close>, \<open>crypto_verify_feed\<close> and
  \<open>crypto_verify_result\<close> on the concatenation of the data that was fed.  \<open>alloc_crypto_key n\<close> is what the
  \<open>n\<close>-th call of \<open>alloc_crypto_key\<close> returns, with what the slot held before.
\<close>

record platform =
  verify :: "crypto_key_and_signature \<Rightarrow> string \<Rightarrow> bool"
  crypto_str_to_keytype :: "string \<Rightarrow> crypto_algorithm"
  crypto_str_to_hashtype :: "string \<Rightarrow> crypto_hash_algorithm"
  crypto_get_hashlen :: "crypto_hash_algorithm \<Rightarrow> nat"
  alloc_crypto_key :: "nat \<Rightarrow> crypto_key option"
  signature_pool_size :: nat
  crypto_ctx_pool_size :: nat

section \<open>Parsing signatures\<close>

text \<open>The text from a token's start to the end of the message.\<close>

definition tok_ptr :: "string \<Rightarrow> jsmntok \<Rightarrow> string" where
  "tok_ptr message token = drop (nat (t_start token)) message"

text \<open>
  The value of a \<open>"sig"\<close> field: \<open>sig_buf\<close> has two bytes more than a signature.  The bytes it holds before
  are not initialised; they are not read.
\<close>

definition parse_sig_value :: "string \<Rightarrow> jsmntok \<Rightarrow> byte list option option" where
  "parse_sig_value json_sig token =
     (let b64_len = JSON_TOK_LEN token
      in if 0 < b64_len \<and> BASE64_DECODED_BUF_SIZE (nat b64_len) \<le> CRYPTO_MAX_SIGNATURE_LEN + 2 then
           do {
             (res, sig_buf) \<leftarrow> base64_decode (tok_ptr json_sig token) (nat b64_len) (replicate (CRYPTO_MAX_SIGNATURE_LEN + 2) 0);
             if res = int CRYPTO_MAX_SIGNATURE_LEN then Some (Some (take CRYPTO_MAX_SIGNATURE_LEN sig_buf)) else Some None
           }
         else Some None)"

text \<open>The loop over the fields of a signature, with what \<open>sig->key\<close> and \<open>sig->sig\<close> were set to.\<close>

fun parse_sig_loop :: "crypto_key list \<Rightarrow> string \<Rightarrow> jsmntok list \<Rightarrow> nat \<Rightarrow> nat \<Rightarrow> crypto_key option \<Rightarrow> byte list option
    \<Rightarrow> (nat \<times> crypto_key option \<times> byte list option) option" where
  "parse_sig_loop meta_keys json_sig pool 0 idx key sg = Some (idx, key, sg)"
| "parse_sig_loop meta_keys json_sig pool (Suc n) idx key sg =
     (if JSON_STR_EQUAL json_sig (pool ! idx) ''keyid'' then
        (let idx = idx + 1
         in if t_type (pool ! idx) \<noteq> JSMN_STRING
            then parse_sig_loop meta_keys json_sig pool n (consume_recursive_json pool idx) key sg
            else
              let found = find_key (tok_text json_sig (pool ! idx)) meta_keys
              in parse_sig_loop meta_keys json_sig pool n (idx + 1) (if found = None then key else found) sg)
      else if JSON_STR_EQUAL json_sig (pool ! idx) ''method'' then
        parse_sig_loop meta_keys json_sig pool n (consume_recursive_json pool (idx + 1)) key sg
      else if JSON_STR_EQUAL json_sig (pool ! idx) ''sig'' then
        (let idx = idx + 1
         in if t_type (pool ! idx) \<noteq> JSMN_STRING
            then parse_sig_loop meta_keys json_sig pool n (consume_recursive_json pool idx) key sg
            else do {
              v \<leftarrow> parse_sig_value json_sig (pool ! idx);
              parse_sig_loop meta_keys json_sig pool n (idx + 1) key (if v = None then sg else v)
            })
      else parse_sig_loop meta_keys json_sig pool n (consume_recursive_json pool (idx + 1)) key sg)"

text \<open>
  \<open>parse_sig\<close> returns \<open>-1\<close>, here \<open>Inl ()\<close>, or the position after the signature and, when both the key and the
  signature were found, the pair.
\<close>

definition parse_sig :: "crypto_key list \<Rightarrow> string \<Rightarrow> jsmntok list \<Rightarrow> nat \<Rightarrow> (unit + nat \<times> crypto_key_and_signature option) option" where
  "parse_sig meta_keys json_sig pool idx =
     (if t_type (pool ! idx) \<noteq> JSMN_OBJECT then Some (Inl ())
      else do {
        (pos, key, sg) \<leftarrow> parse_sig_loop meta_keys json_sig pool (nat (t_size (pool ! idx))) (idx + 1) None None;
        Some (Inr (pos, case (key, sg) of (Some k, Some s) \<Rightarrow> Some \<lparr>s_key = k, s_sig = s\<rparr> | _ \<Rightarrow> None))
      })"

text \<open>The loop over the array; \<open>output\<close> holds the signatures read so far.\<close>

fun parse_sigs_loop :: "crypto_key list \<Rightarrow> string \<Rightarrow> jsmntok list \<Rightarrow> nat \<Rightarrow> nat \<Rightarrow> nat \<Rightarrow> crypto_key_and_signature list
    \<Rightarrow> (unit + nat \<times> crypto_key_and_signature list) option" where
  "parse_sigs_loop meta_keys signatures pool max_sigs 0 idx output = Some (Inr (idx, output))"
| "parse_sigs_loop meta_keys signatures pool max_sigs (Suc n) idx output =
     (if max_sigs \<le> length output then Some (Inr (idx, output))
      else do {
        res \<leftarrow> parse_sig meta_keys signatures pool idx;
        case res of
          Inl e \<Rightarrow> Some (Inl ())
        | Inr (idx, sg) \<Rightarrow>
            parse_sigs_loop meta_keys signatures pool max_sigs n idx (output @ (case sg of None \<Rightarrow> [] | Some s \<Rightarrow> [s]))
      })"

definition uptane_parse_signatures :: "uptane_role \<Rightarrow> string \<Rightarrow> jsmntok list \<Rightarrow> nat \<Rightarrow> nat \<Rightarrow> uptane_root
    \<Rightarrow> (unit + nat \<times> crypto_key_and_signature list) option" where
  "uptane_parse_signatures role signatures pool idx max_sigs in_root =
     (let meta_keys = (if role = ROLE_ROOT then root_keys in_root else targets_keys in_root)
      in if t_type (pool ! idx) \<noteq> JSMN_ARRAY then Some (Inl ())
         else parse_sigs_loop meta_keys signatures pool max_sigs (nat (t_size (pool ! idx))) (idx + 1) [])"

section \<open>What is parsed\<close>

lemma find_key_mem: "find_key key_id keys = Some k \<Longrightarrow> k \<in> set keys"
  by (auto simp: find_key_def find_Some_iff split: if_splits)

lemma parse_sig_value_safe:
  assumes "0 \<le> t_start t" and "t_end t \<le> int (length js)" and "4 dvd JSON_TOK_LEN t"
  shows "parse_sig_value js t \<noteq> None"
proof (cases "0 < JSON_TOK_LEN t \<and> BASE64_DECODED_BUF_SIZE (nat (JSON_TOK_LEN t)) \<le> CRYPTO_MAX_SIGNATURE_LEN + 2")
  case True
  obtain k where k: "JSON_TOK_LEN t = 4 * int k" using assms(3) True by (metis dvdE zero_less_imp_eq_int zero_less_mult_pos zero_less_numeral)
  then have q: "(nat (JSON_TOK_LEN t) + 3) div 4 = k" "nat (JSON_TOK_LEN t) = 4 * k" by auto
  have "3 * k \<le> 66" using True q by (simp add: BASE64_DECODED_BUF_SIZE_def CRYPTO_MAX_SIGNATURE_LEN_def)
  moreover have "4 * k \<le> length (tok_ptr js t)"
    using k assms(1,2) by (simp add: tok_ptr_def JSON_TOK_LEN_def)
  ultimately obtain res out' where "base64_decode (tok_ptr js t) (4 * k) (replicate (CRYPTO_MAX_SIGNATURE_LEN + 2) 0) = Some (res, out')"
    using base64_decode_loop_inside [of "4 * k" "tok_ptr js t" 0 "replicate (CRYPTO_MAX_SIGNATURE_LEN + 2) 0"]
    by (auto simp: base64_decode_def CRYPTO_MAX_SIGNATURE_LEN_def)
  then show ?thesis using True q by (simp add: parse_sig_value_def Let_def)
qed (auto simp: parse_sig_value_def Let_def)

lemma parse_sig_loop_key:
  assumes "parse_sig_loop ks js pool n idx key sg = Some (idx', key', sg')" and "\<forall>k. key = Some k \<longrightarrow> k \<in> set ks"
  shows "\<forall>k. key' = Some k \<longrightarrow> k \<in> set ks"
  using assms
proof (induction n arbitrary: idx key sg)
  case (Suc n)
  show ?case
  proof (cases "JSON_STR_EQUAL js (pool ! idx) ''keyid'' \<and> t_type (pool ! (idx + 1)) = JSMN_STRING")
    case True
    let ?f = "find_key (tok_text js (pool ! (idx + 1))) ks"
    have "parse_sig_loop ks js pool n (idx + 1 + 1) (if ?f = None then key else ?f) sg = Some (idx', key', sg')"
      using True Suc.prems(1) by (auto simp: Let_def split: if_splits)
    moreover have "\<forall>k. (if ?f = None then key else ?f) = Some k \<longrightarrow> k \<in> set ks"
      using Suc.prems(2) find_key_mem by auto
    ultimately show ?thesis by (rule Suc.IH)
  next
    case False
    with Suc.prems(1) obtain i s where "parse_sig_loop ks js pool n i key s = Some (idx', key', sg')"
      by (auto simp: Let_def bind_eq_Some_conv split: if_splits)
    with Suc.IH Suc.prems(2) show ?thesis by blast
  qed
qed simp

lemma parse_sigs_loop_keys:
  assumes "parse_sigs_loop ks js pool m n idx out = Some (Inr (idx', out'))"
    and "\<forall>s \<in> set out. s_key s \<in> set ks" and "length out \<le> m"
  shows "(\<forall>s \<in> set out'. s_key s \<in> set ks) \<and> length out' \<le> m"
  using assms
proof (induction ks js pool m n idx out rule: parse_sigs_loop.induct)
  case (2 ks js pool m n idx out)
  show ?case
  proof (cases "m \<le> length out")
    case True
    with 2 show ?thesis by auto
  next
    case False
    with "2.prems"(1) obtain res where res: "parse_sig ks js pool idx = Some res"
      by (auto simp: bind_eq_Some_conv)
    with False "2.prems"(1) obtain i sg where r: "res = Inr (i, sg)" by (cases res) auto
    have p: "parse_sig ks js pool idx = Some (Inr (i, sg))" using res r by simp
    have rest: "parse_sigs_loop ks js pool m n i (out @ (case sg of None \<Rightarrow> [] | Some s \<Rightarrow> [s])) = Some (Inr (idx', out'))"
      using False "2.prems"(1) res r by simp
    have "\<forall>s. sg = Some s \<longrightarrow> s_key s \<in> set ks"
      using p parse_sig_loop_key
      by (auto simp: parse_sig_def bind_eq_Some_conv split: if_splits option.splits)
    then have "(\<forall>s \<in> set (out @ (case sg of None \<Rightarrow> [] | Some s \<Rightarrow> [s])). s_key s \<in> set ks)
        \<and> length (out @ (case sg of None \<Rightarrow> [] | Some s \<Rightarrow> [s])) \<le> m"
      using "2.prems"(2) False by (auto split: option.splits)
    with "2.IH" [OF False p refl refl rest] show ?thesis by blast
  qed
qed auto

lemma uptane_parse_signatures_keys:
  assumes "uptane_parse_signatures role js pool idx m in_root = Some (Inr (idx', out))"
  shows "\<forall>s \<in> set out. s_key s \<in> set (if role = ROLE_ROOT then root_keys in_root else targets_keys in_root)"
    and "length out \<le> m"
  using assms parse_sigs_loop_keys [of _ js pool m _ _ "[]" idx' out]
  by (auto simp: uptane_parse_signatures_def Let_def split: if_splits)

end
