(* ===== verification/Uptiny_Root.thy ===== *)
theory Uptiny_Root
  imports Uptiny_Signatures
begin

text \<open>
  Root metadata of the partial-verification client (\<open>partial/libuptiny/root_signed.c\<close>, \<open>root.c\<close>).  The
  static variables of \<open>root_signed.c\<close> are the record \<^term>\<open>root_state\<close>: the keys read so far, which no call
  clears, and how many keys the platform was asked for.  Keys are values: what \<open>free_crypto_key\<close> does to a
  slot is not modelled.
\<close>

record root_state =
  parsed_keys :: "crypto_key list"
  allocs :: nat

section \<open>Keys\<close>

text \<open>
  \<open>hex2bin\<close> into the buffer of a key: it writes one byte for every two digits up to the first character
  that is no digit, and the buffer is not checked.
\<close>

definition hex2bin_into :: "string \<Rightarrow> byte list \<Rightarrow> (bool \<times> byte list) option" where
  "hex2bin_into s buf = (if 2 * length buf < length (takeWhile is_hex s) then None else Some (hex2bin s buf))"

definition parse_keyval :: "string \<Rightarrow> crypto_key \<Rightarrow> (bool \<times> crypto_key) option" where
  "parse_keyval keyval key =
     (case k_type key of
        CRYPTO_ALG_ED25519 \<Rightarrow> do { (ok, v) \<leftarrow> hex2bin_into keyval (k_val key); Some (ok, key\<lparr>k_val := v\<rparr>) }
      | _ \<Rightarrow> Some (False, key))"

fun keyval_loop :: "string \<Rightarrow> jsmntok list \<Rightarrow> nat \<Rightarrow> nat \<Rightarrow> crypto_key \<Rightarrow> bool \<Rightarrow> (nat \<times> crypto_key \<times> bool) option" where
  "keyval_loop metadata_str pool 0 idx key found = Some (idx, key, found)"
| "keyval_loop metadata_str pool (Suc n) idx key found =
     (if JSON_STR_EQUAL metadata_str (pool ! idx) ''public'' then do {
        (found, key) \<leftarrow> parse_keyval (tok_text metadata_str (pool ! (idx + 1))) key;
        keyval_loop metadata_str pool n (idx + 2) key found
      }
      else keyval_loop metadata_str pool n (consume_recursive_json pool (idx + 1)) key found)"

text \<open>The fields of a key object: \<open>keytype_supported\<close> and \<open>keyval_found\<close> are the flags of the loop body.\<close>

fun key_loop :: "platform \<Rightarrow> string \<Rightarrow> jsmntok list \<Rightarrow> nat \<Rightarrow> nat \<Rightarrow> crypto_key \<Rightarrow> bool \<Rightarrow> bool
    \<Rightarrow> (nat \<times> crypto_key \<times> bool \<times> bool) option" where
  "key_loop pf metadata_str pool 0 idx key supported found = Some (idx, key, supported, found)"
| "key_loop pf metadata_str pool (Suc n) idx key supported found =
     (if JSON_STR_EQUAL metadata_str (pool ! idx) ''keytype'' then
        (let key = key\<lparr>k_type := crypto_str_to_keytype pf (tok_text metadata_str (pool ! (idx + 1)))\<rparr>
         in key_loop pf metadata_str pool n (idx + 2) key (k_type key \<noteq> CRYPTO_ALG_UNKNOWN) found)
      else if JSON_STR_EQUAL metadata_str (pool ! idx) ''keyval'' then
        (let idx = idx + 1
         in if t_type (pool ! idx) \<noteq> JSMN_OBJECT then key_loop pf metadata_str pool n idx key supported found
            else do {
              (idx, key, found) \<leftarrow> keyval_loop metadata_str pool (nat (t_size (pool ! (idx + 1)))) (idx + 1) key found;
              key_loop pf metadata_str pool n idx key supported found
            })
      else key_loop pf metadata_str pool n (consume_recursive_json pool (idx + 1)) key supported found)"

text \<open>
  One round of \<open>parse_keys\<close>; \<open>Inl ()\<close> is the early return of \<open>false\<close>.  After an object that is no object the
  code frees the key but goes on with the next token.
\<close>

definition parse_key :: "platform \<Rightarrow> string \<Rightarrow> jsmntok list \<Rightarrow> nat \<Rightarrow> root_state \<Rightarrow> (root_state \<times> (unit + nat)) option" where
  "parse_key pf metadata_str pool idx st =
     (if ROOT_MAX_KEYS \<le> length (parsed_keys st) then None
      else
        let slot = alloc_crypto_key pf (allocs st);
            st = st\<lparr>allocs := allocs st + 1\<rparr>
        in case slot of
             None \<Rightarrow> Some (st, Inl ())
           | Some key \<Rightarrow>
               if JSON_TOK_LEN (pool ! idx) \<noteq> 2 * int CRYPTO_KEYID_LEN
               then Some (st, Inr (consume_recursive_json pool (idx + 1)))
               else do {
                 (ok, kid) \<leftarrow> hex2bin_into (tok_text metadata_str (pool ! idx)) (k_id key);
                 let key = key\<lparr>k_id := kid\<rparr>;
                 if \<not> ok then Some (st, Inr (consume_recursive_json pool (idx + 1)))
                 else
                   let idx = idx + 1;
                       idx = (if t_type (pool ! idx) \<noteq> JSMN_OBJECT then consume_recursive_json pool idx else idx)
                   in do {
                     (idx, key, supported, found) \<leftarrow>
                       key_loop pf metadata_str pool (nat (t_size (pool ! idx))) (idx + 1) key False False;
                     if supported \<and> found then
                       let st = st\<lparr>parsed_keys := parsed_keys st @ [key]\<rparr>
                       in Some (st, if ROOT_MAX_KEYS \<le> length (parsed_keys st) then Inl () else Inr idx)
                     else Some (st, Inr idx)
                   }
               })"

fun parse_keys_loop :: "platform \<Rightarrow> string \<Rightarrow> jsmntok list \<Rightarrow> nat \<Rightarrow> nat \<Rightarrow> root_state \<Rightarrow> (root_state \<times> (unit + nat)) option" where
  "parse_keys_loop pf metadata_str pool 0 idx st = Some (st, Inr idx)"
| "parse_keys_loop pf metadata_str pool (Suc n) idx st = do {
     (st, res) \<leftarrow> parse_key pf metadata_str pool idx st;
     case res of Inl e \<Rightarrow> Some (st, Inl ()) | Inr idx \<Rightarrow> parse_keys_loop pf metadata_str pool n idx st
   }"

definition parse_keys :: "platform \<Rightarrow> string \<Rightarrow> jsmntok list \<Rightarrow> nat \<Rightarrow> root_state \<Rightarrow> (root_state \<times> (unit + nat)) option" where
  "parse_keys pf metadata_str pool idx st =
     (if t_type (pool ! idx) \<noteq> JSMN_OBJECT then Some (st, Inl ())
      else parse_keys_loop pf metadata_str pool (nat (t_size (pool ! idx))) (idx + 1) st)"

section \<open>Roles\<close>

text \<open>The key ids of a role, written to an array of \<^const>\<open>ROOT_MAX_KEYS\<close> entries.\<close>

fun keyids_loop :: "string \<Rightarrow> jsmntok list \<Rightarrow> crypto_key list \<Rightarrow> nat \<Rightarrow> nat \<Rightarrow> crypto_key list \<Rightarrow> (nat \<times> crypto_key list) option" where
  "keyids_loop metadata_str pool ks 0 idx out_keys = Some (idx, out_keys)"
| "keyids_loop metadata_str pool ks (Suc n) idx out_keys =
     (case find_key (tok_text metadata_str (pool ! idx)) ks of
        None \<Rightarrow> keyids_loop metadata_str pool ks n (idx + 1) out_keys
      | Some key \<Rightarrow>
          if ROOT_MAX_KEYS \<le> length out_keys then None
          else keyids_loop metadata_str pool ks n (idx + 1) (out_keys @ [key]))"

record role_out =
  o_threshold :: int
  o_keys :: "crypto_key list"

fun parse_role_loop :: "string \<Rightarrow> jsmntok list \<Rightarrow> crypto_key list \<Rightarrow> nat \<Rightarrow> nat \<Rightarrow> role_out \<Rightarrow> bool \<Rightarrow> bool
    \<Rightarrow> (nat \<times> role_out \<times> bool) option" where
  "parse_role_loop metadata_str pool ks 0 idx out threshold_found keyids_found = Some (idx, out, threshold_found \<and> keyids_found)"
| "parse_role_loop metadata_str pool ks (Suc n) idx out threshold_found keyids_found =
     (if JSON_STR_EQUAL metadata_str (pool ! idx) ''threshold'' then
        (let t = pool ! (idx + 1)
         in case dec2int (tok_ptr metadata_str t) (nat (JSON_TOK_LEN t)) of
              Some thr \<Rightarrow>
                if 0 \<le> thr then parse_role_loop metadata_str pool ks n (idx + 2) (out\<lparr>o_threshold := thr\<rparr>) True keyids_found
                else parse_role_loop metadata_str pool ks n (idx + 2) out threshold_found keyids_found
            | None \<Rightarrow> parse_role_loop metadata_str pool ks n (idx + 2) out threshold_found keyids_found)
      else if JSON_STR_EQUAL metadata_str (pool ! idx) ''keyids'' then
        (let idx = idx + 1
         in if t_type (pool ! idx) \<noteq> JSMN_ARRAY
            then parse_role_loop metadata_str pool ks n (consume_recursive_json pool idx) out threshold_found keyids_found
            else do {
              (idx, out_keys) \<leftarrow> keyids_loop metadata_str pool ks (nat (t_size (pool ! idx))) (idx + 1) [];
              parse_role_loop metadata_str pool ks n idx (out\<lparr>o_keys := out_keys\<rparr>) threshold_found True
            })
      else parse_role_loop metadata_str pool ks n (consume_recursive_json pool (idx + 1)) out threshold_found keyids_found)"

text \<open>A role that is no object leaves the position where it was.\<close>

definition parse_role :: "string \<Rightarrow> jsmntok list \<Rightarrow> crypto_key list \<Rightarrow> nat \<Rightarrow> role_out \<Rightarrow> (nat \<times> role_out \<times> bool) option" where
  "parse_role metadata_str pool ks idx out =
     (if t_type (pool ! idx) \<noteq> JSMN_OBJECT then Some (idx, out, False)
      else parse_role_loop metadata_str pool ks (nat (t_size (pool ! idx))) (idx + 1) out False False)"

fun parse_roles_loop :: "string \<Rightarrow> jsmntok list \<Rightarrow> crypto_key list \<Rightarrow> nat \<Rightarrow> nat \<Rightarrow> uptane_root \<Rightarrow> bool \<Rightarrow> bool
    \<Rightarrow> (nat \<times> uptane_root \<times> bool) option" where
  "parse_roles_loop metadata_str pool ks 0 idx rt root_found targets_found = Some (idx, rt, root_found \<and> targets_found)"
| "parse_roles_loop metadata_str pool ks (Suc n) idx rt root_found targets_found =
     (if JSON_STR_EQUAL metadata_str (pool ! idx) ''root'' then do {
        (idx, out, found) \<leftarrow> parse_role metadata_str pool ks (idx + 1) \<lparr>o_threshold = root_threshold rt, o_keys = root_keys rt\<rparr>;
        parse_roles_loop metadata_str pool ks n idx (rt\<lparr>root_threshold := o_threshold out, root_keys := o_keys out\<rparr>) found targets_found
      }
      else if JSON_STR_EQUAL metadata_str (pool ! idx) ''targets'' then do {
        (idx, out, found) \<leftarrow> parse_role metadata_str pool ks (idx + 1) \<lparr>o_threshold = targets_threshold rt, o_keys = targets_keys rt\<rparr>;
        parse_roles_loop metadata_str pool ks n idx (rt\<lparr>targets_threshold := o_threshold out, targets_keys := o_keys out\<rparr>) root_found found
      }
      else parse_roles_loop metadata_str pool ks n (consume_recursive_json pool (idx + 1)) rt root_found targets_found)"

definition parse_roles :: "string \<Rightarrow> jsmntok list \<Rightarrow> crypto_key list \<Rightarrow> nat \<Rightarrow> uptane_root \<Rightarrow> (nat \<times> uptane_root \<times> bool) option" where
  "parse_roles metadata_str pool ks idx rt =
     (if t_type (pool ! idx) \<noteq> JSMN_OBJECT then Some (idx, rt, False)
      else parse_roles_loop metadata_str pool ks (nat (t_size (pool ! idx))) (idx + 1) rt False False)"

section \<open>The signed part\<close>

fun root_signed_loop :: "platform \<Rightarrow> string \<Rightarrow> jsmntok list \<Rightarrow> nat \<Rightarrow> nat \<Rightarrow> root_state \<Rightarrow> uptane_root
    \<Rightarrow> (root_state \<times> uptane_root \<times> bool \<times> nat) option" where
  "root_signed_loop pf metadata_str pool 0 idx st rt = Some (st, rt, True, idx)"
| "root_signed_loop pf metadata_str pool (Suc n) idx st rt =
     (let t = pool ! (idx + 1)
      in if JSON_STR_EQUAL metadata_str (pool ! idx) ''_type'' then
           (if \<not> JSON_STR_EQUAL metadata_str t ''Root'' then Some (st, rt, False, idx)
            else root_signed_loop pf metadata_str pool n (idx + 2) st rt)
         else if JSON_STR_EQUAL metadata_str (pool ! idx) ''expires'' then
           (case str2time (tok_text metadata_str t) of
              None \<Rightarrow> Some (st, rt, False, idx)
            | Some expires \<Rightarrow> root_signed_loop pf metadata_str pool n (idx + 2) st (rt\<lparr>r_expires := expires\<rparr>))
         else if JSON_STR_EQUAL metadata_str (pool ! idx) ''version'' then
           (case dec2int (tok_ptr metadata_str t) (nat (JSON_TOK_LEN t)) of
              None \<Rightarrow> Some (st, rt, False, idx)
            | Some v \<Rightarrow> root_signed_loop pf metadata_str pool n (idx + 2) st (rt\<lparr>r_version := v\<rparr>))
         else if JSON_STR_EQUAL metadata_str (pool ! idx) ''keys'' then do {
           (st, res) \<leftarrow> parse_keys pf metadata_str pool (idx + 1) st;
           case res of
             Inl e \<Rightarrow> Some (st, rt, False, idx)
           | Inr i \<Rightarrow> root_signed_loop pf metadata_str pool n i st rt
         }
         else if JSON_STR_EQUAL metadata_str (pool ! idx) ''roles'' then do {
           (i, rt, ok) \<leftarrow> parse_roles metadata_str pool (parsed_keys st) (idx + 1) rt;
           if \<not> ok then Some (st, rt, False, idx) else root_signed_loop pf metadata_str pool n i st rt
         }
         else root_signed_loop pf metadata_str pool n (consume_recursive_json pool (idx + 1)) st rt)"

definition uptane_parse_root_signed :: "platform \<Rightarrow> string \<Rightarrow> jsmntok list \<Rightarrow> nat \<Rightarrow> root_state \<Rightarrow> uptane_root
    \<Rightarrow> (root_state \<times> uptane_root \<times> bool \<times> nat) option" where
  "uptane_parse_root_signed pf metadata_str pool idx st out_root =
     (if t_type (pool ! idx) \<noteq> JSMN_OBJECT then Some (st, out_root, False, idx)
      else root_signed_loop pf metadata_str pool (nat (t_size (pool ! idx))) (idx + 1) st out_root)"

section \<open>Root metadata\<close>

definition valid_signatures :: "platform \<Rightarrow> crypto_key_and_signature list \<Rightarrow> string \<Rightarrow> nat" where
  "valid_signatures pf sigs data = length (filter (\<lambda>s. verify pf s data) sigs)"

text \<open>
  The branch of \<open>uptane_parse_root\<close> for the field \<open>"signed"\<close>, whose value is the token \<open>idx\<close>: the signatures are
  checked with the keys of the old root, the signed part is read, and the signatures are read again and
  checked with the keys of the new root.
\<close>

definition parse_signed_root :: "platform \<Rightarrow> uptane_root \<Rightarrow> string \<Rightarrow> jsmntok list \<Rightarrow> nat \<Rightarrow> nat
    \<Rightarrow> crypto_key_and_signature list \<Rightarrow> root_state \<Rightarrow> uptane_root \<Rightarrow> (bool \<times> root_state \<times> uptane_root) option" where
  "parse_signed_root pf old_root metadata pool idx signatures_token sigs st out_root =
     (let data = tok_text metadata (pool ! idx)
      in if length sigs = 0 then Some (False, st, out_root)
         else if int (valid_signatures pf sigs data) < root_threshold old_root then Some (False, st, out_root)
         else do {
           (st, out_root, ok, idx) \<leftarrow> uptane_parse_root_signed pf metadata pool idx st out_root;
           if \<not> ok then Some (False, st, out_root)
           else if r_version out_root < r_version old_root then Some (False, st, out_root)
           else do {
             res \<leftarrow> uptane_parse_signatures ROLE_ROOT metadata pool signatures_token (signature_pool_size pf) out_root;
             case res of
               Inl e \<Rightarrow> Some (False, st, out_root)
             | Inr (i, new_sigs) \<Rightarrow>
                 if length new_sigs = 0 then Some (False, st, out_root)
                 else if int (valid_signatures pf new_sigs data) < root_threshold out_root then Some (False, st, out_root)
                 else Some (True, st, out_root)
           }
         })"

fun parse_root_loop :: "platform \<Rightarrow> uptane_root \<Rightarrow> string \<Rightarrow> jsmntok list \<Rightarrow> nat \<Rightarrow> nat \<Rightarrow> nat
    \<Rightarrow> crypto_key_and_signature list \<Rightarrow> root_state \<Rightarrow> uptane_root \<Rightarrow> (bool \<times> root_state \<times> uptane_root) option" where
  "parse_root_loop pf old_root metadata pool 0 idx signatures_token sigs st out_root = Some (False, st, out_root)"
| "parse_root_loop pf old_root metadata pool (Suc n) idx signatures_token sigs st out_root =
     (if JSON_STR_EQUAL metadata (pool ! idx) ''signatures'' then do {
        res \<leftarrow> uptane_parse_signatures ROLE_ROOT metadata pool (idx + 1) (signature_pool_size pf) old_root;
        case res of
          Inl e \<Rightarrow> Some (False, st, out_root)
        | Inr (i, new_sigs) \<Rightarrow>
            if length new_sigs = 0 then Some (False, st, out_root)
            else parse_root_loop pf old_root metadata pool n i (idx + 1) new_sigs st out_root
      }
      else if JSON_STR_EQUAL metadata (pool ! idx) ''signed'' then
        parse_signed_root pf old_root metadata pool (idx + 1) signatures_token sigs st out_root
      else parse_root_loop pf old_root metadata pool n (consume_recursive_json pool (idx + 1)) signatures_token sigs st out_root)"

definition uptane_parse_root :: "platform \<Rightarrow> uptane_root \<Rightarrow> string \<Rightarrow> jsmntok list \<Rightarrow> root_state \<Rightarrow> uptane_root
    \<Rightarrow> (bool \<times> root_state \<times> uptane_root) option" where
  "uptane_parse_root pf old_root metadata token_pool st out_root = do {
     (res, parser, pool) \<leftarrow> jsmn_parse jsmn_init metadata token_pool;
     if isl res then Some (False, st, out_root)
     else if t_type (pool ! 0) \<noteq> JSMN_OBJECT then Some (False, st, out_root)
     else parse_root_loop pf old_root metadata pool (nat (t_size (pool ! 0))) 1 0 [] st out_root
   }"

section \<open>What an accepted root has\<close>

text \<open>
  Enough signatures, made with keys of a list, verify on the given text.  A signature may occur more than
  once: neither the keys nor the signatures need be distinct.
\<close>

definition signed_with :: "platform \<Rightarrow> crypto_key list \<Rightarrow> int \<Rightarrow> string \<Rightarrow> bool" where
  "signed_with pf ks threshold data \<longleftrightarrow>
     (\<exists>sigs. sigs \<noteq> [] \<and> (\<forall>s \<in> set sigs. s_key s \<in> set ks) \<and> threshold \<le> int (valid_signatures pf sigs data))"

lemma parse_signed_root_accepts:
  assumes "parse_signed_root pf old metadata pool idx sigtok sigs st out = Some (True, st', new)"
    and "\<forall>s \<in> set sigs. s_key s \<in> set (root_keys old)"
  shows "signed_with pf (root_keys old) (root_threshold old) (tok_text metadata (pool ! idx)) \<and>
    signed_with pf (root_keys new) (root_threshold new) (tok_text metadata (pool ! idx)) \<and>
    r_version old \<le> r_version new"
proof -
  let ?data = "tok_text metadata (pool ! idx)"
  from assms(1) have ne: "sigs \<noteq> []" and thr: "root_threshold old \<le> int (valid_signatures pf sigs ?data)"
    by (auto simp: parse_signed_root_def Let_def split: if_splits)
  from assms(1) obtain st1 out1 ok i where
    s: "uptane_parse_root_signed pf metadata pool idx st out = Some (st1, out1, ok, i)"
    by (auto simp: parse_signed_root_def Let_def bind_eq_Some_conv split: if_splits)
  with assms(1) ne thr have ok: "ok" "\<not> r_version out1 < r_version old"
    by (auto simp: parse_signed_root_def Let_def split: if_splits)
  with assms(1) ne thr s obtain res where
    r: "uptane_parse_signatures ROLE_ROOT metadata pool sigtok (signature_pool_size pf) out1 = Some res"
    by (auto simp: parse_signed_root_def Let_def bind_eq_Some_conv split: if_splits)
  with assms(1) ne thr s ok obtain j new_sigs where res: "res = Inr (j, new_sigs)"
    by (cases res) (auto simp: parse_signed_root_def Let_def)
  with assms(1) ne thr s ok r have n: "new_sigs \<noteq> []" "root_threshold out1 \<le> int (valid_signatures pf new_sigs ?data)" "new = out1"
    by (auto simp: parse_signed_root_def Let_def split: if_splits)
  have "\<forall>s \<in> set new_sigs. s_key s \<in> set (root_keys out1)"
    using uptane_parse_signatures_keys(1) [of ROLE_ROOT] r res by fastforce
  with ne thr n ok assms(2) show ?thesis unfolding signed_with_def by fastforce
qed

lemma parse_root_loop_accepts:
  assumes "parse_root_loop pf old metadata pool n idx sigtok sigs st out = Some (True, st', new)"
    and "\<forall>s \<in> set sigs. s_key s \<in> set (root_keys old)"
  shows "\<exists>i. signed_with pf (root_keys old) (root_threshold old) (tok_text metadata (pool ! i)) \<and>
    signed_with pf (root_keys new) (root_threshold new) (tok_text metadata (pool ! i)) \<and>
    r_version old \<le> r_version new"
  using assms
proof (induction n arbitrary: idx sigtok sigs)
  case (Suc n)
  show ?case
  proof (cases "JSON_STR_EQUAL metadata (pool ! idx) ''signatures''")
    case True
    with Suc.prems(1) obtain res where
      r: "uptane_parse_signatures ROLE_ROOT metadata pool (idx + 1) (signature_pool_size pf) old = Some res"
      by (auto simp: bind_eq_Some_conv)
    with True Suc.prems(1) obtain i new_sigs where res: "res = Inr (i, new_sigs)" by (cases res) auto
    with True Suc.prems(1) r have "parse_root_loop pf old metadata pool n i (idx + 1) new_sigs st out = Some (True, st', new)"
      by (auto split: if_splits)
    moreover have "\<forall>s \<in> set new_sigs. s_key s \<in> set (root_keys old)"
      using uptane_parse_signatures_keys(1) [of ROLE_ROOT] r res by fastforce
    ultimately show ?thesis by (rule Suc.IH)
  next
    case False
    show ?thesis
    proof (cases "JSON_STR_EQUAL metadata (pool ! idx) ''signed''")
      case True
      with False Suc.prems(1) have "parse_signed_root pf old metadata pool (idx + 1) sigtok sigs st out = Some (True, st', new)"
        by simp
      from parse_signed_root_accepts [OF this Suc.prems(2)] show ?thesis by blast
    next
      case other: False
      with False Suc show ?thesis by auto
    qed
  qed
qed simp

lemma uptane_parse_root_accepts:
  assumes "uptane_parse_root pf old metadata token_pool st out = Some (True, st', new)"
  shows "\<exists>pool n i. jsmn_parse jsmn_init metadata token_pool = Some (Inr n, pool) \<and>
    signed_with pf (root_keys old) (root_threshold old) (tok_text metadata (snd pool ! i)) \<and>
    signed_with pf (root_keys new) (root_threshold new) (tok_text metadata (snd pool ! i)) \<and>
    r_version old \<le> r_version new"
proof -
  from assms obtain res p pool where j: "jsmn_parse jsmn_init metadata token_pool = Some (res, p, pool)"
    and "\<not> isl res"
    and l: "parse_root_loop pf old metadata pool (nat (t_size (pool ! 0))) 1 0 [] st out = Some (True, st', new)"
    by (auto simp: uptane_parse_root_def bind_eq_Some_conv split: if_splits)
  then obtain n where "res = Inr n" by (cases res) auto
  with j parse_root_loop_accepts [OF l] show ?thesis by auto
qed

end
