(* ===== verification/Uptiny_Targets.thy ===== *)
theory Uptiny_Targets
  imports Uptiny_Root
begin

text \<open>
  The targets parser of the partial-verification client (\<open>partial/libuptiny/targets.c\<close>): a state machine that is
  fed the metadata in parts.  The static variables of the file, the token pool, the signature pool and the
  verification contexts are the record \<^term>\<open>tstate\<close>.
\<close>

section \<open>State\<close>

record uptane_targets =
  tg_version :: int
  tg_expires :: uptane_time
  tg_name :: string
  tg_hashes_num :: nat
  tg_hashes :: "crypto_hash list"
  tg_length :: nat

text \<open>What the device stores (\<open>state_api.h\<close>).  \<open>state_get_targets\<close> may return \<open>NULL\<close>.\<close>

record device =
  d_root :: uptane_root
  d_targets :: "uptane_targets option"
  d_ecuid :: string
  d_hwid :: string

datatype targets_result = RESULT_ERROR | RESULT_WRONG_HW_ID | RESULT_SIGNATURES_FAILED | RESULT_VERSION_FAILED
  | RESULT_IN_PROGRESS | RESULT_END_FOUND | RESULT_END_NOT_FOUND

datatype parsing_state = TARGETS_BEGIN | TARGETS_IN_TOP | TARGETS_IN_SIGNATURES | TARGETS_BEFORE_SIGNED
  | TARGETS_IN_SIGNED | TARGETS_IN_IGNORED | TARGETS_IN_TARGETS | TARGETS_IN_ERROR

record tstate =
  parser :: jsmn_parser
  token_pos :: nat
  ignored_top_token_pos :: int
  signed_top_token_pos :: int
  targets_top_token_pos :: int
  state :: parsing_state
  prev_state :: parsing_state
  target_found :: bool
  signed_elems_read :: int
  targets_elems_read :: int
  num_signatures :: nat
  begin_signed :: int
  end_signed :: int
  in_signed :: bool
  tail_length :: nat
  tmp_target :: uptane_targets
  token_pool :: "jsmntok list"
  signature_pool :: "crypto_key_and_signature list"
  ctx_sig :: "crypto_key_and_signature list"
  ctx_data :: "string list"

definition uptane_parse_targets_init :: "tstate \<Rightarrow> tstate" where
  "uptane_parse_targets_init s = s\<lparr>parser := jsmn_init, token_pos := 0, ignored_top_token_pos := 0,
     signed_top_token_pos := -1, targets_top_token_pos := -1, target_found := False, signed_elems_read := 0,
     targets_elems_read := 0, num_signatures := 0, state := TARGETS_BEGIN, begin_signed := -1, end_signed := -1,
     in_signed := False, tail_length := 0\<rparr>"

section \<open>One target\<close>

datatype parse_target_result = PARSE_TARGET_ERROR | PARSE_TARGET_NOTFORME | PARSE_TARGET_FORME | PARSE_TARGET_WRONG_HW_ID

text \<open>\<open>strncmp (s, text, len) == 0\<close> for a text without the character 0.\<close>

definition strncmp_eq :: "string \<Rightarrow> string \<Rightarrow> bool" where
  "strncmp_eq s txt \<longleftrightarrow> take (length txt) s = txt"

text \<open>The loops of the field \<open>custom.ecuIdentifiers\<close>; an \<open>Inl\<close> is an early return.\<close>

fun hwid_loop :: "string \<Rightarrow> string \<Rightarrow> jsmntok list \<Rightarrow> bool \<Rightarrow> nat \<Rightarrow> nat \<Rightarrow> parse_target_result + nat" where
  "hwid_loop hwid message pool is_for_me 0 idx = Inr idx"
| "hwid_loop hwid message pool is_for_me (Suc n) idx =
     (if JSON_STR_EQUAL message (pool ! idx) ''hardwareId'' then
        if is_for_me \<and> \<not> strncmp_eq hwid (tok_text message (pool ! (idx + 1))) then Inl PARSE_TARGET_WRONG_HW_ID
        else hwid_loop hwid message pool is_for_me n (idx + 2)
      else hwid_loop hwid message pool is_for_me n (consume_recursive_json pool (idx + 1)))"

fun ecu_loop :: "device \<Rightarrow> string \<Rightarrow> jsmntok list \<Rightarrow> nat \<Rightarrow> nat \<Rightarrow> bool \<Rightarrow> parse_target_result + nat \<times> bool" where
  "ecu_loop dev message pool 0 idx for_me = Inr (idx, for_me)"
| "ecu_loop dev message pool (Suc n) idx for_me =
     (let is_for_me = strncmp_eq (d_ecuid dev) (tok_text message (pool ! idx));
          idx = idx + 1
      in if t_type (pool ! idx) \<noteq> JSMN_OBJECT then Inl PARSE_TARGET_ERROR
         else case hwid_loop (d_hwid dev) message pool is_for_me (nat (t_size (pool ! idx))) (idx + 1) of
                Inl e \<Rightarrow> Inl e
              | Inr idx \<Rightarrow> ecu_loop dev message pool n idx (for_me \<or> is_for_me))"

fun custom_loop :: "device \<Rightarrow> string \<Rightarrow> jsmntok list \<Rightarrow> nat \<Rightarrow> nat \<Rightarrow> bool \<Rightarrow> parse_target_result + nat \<times> bool" where
  "custom_loop dev message pool 0 idx for_me = Inr (idx, for_me)"
| "custom_loop dev message pool (Suc n) idx for_me =
     (if JSON_STR_EQUAL message (pool ! idx) ''ecuIdentifiers'' then
        (let idx = idx + 1
         in if t_type (pool ! idx) \<noteq> JSMN_OBJECT then Inl PARSE_TARGET_ERROR
            else case ecu_loop dev message pool (nat (t_size (pool ! idx))) (idx + 1) for_me of
                   Inl e \<Rightarrow> Inl e
                 | Inr (idx, for_me) \<Rightarrow> custom_loop dev message pool n idx for_me)
      else custom_loop dev message pool n (consume_recursive_json pool (idx + 1)) for_me)"

text \<open>
  The loop of the field \<open>hashes\<close>, with \<open>hash_idx\<close> and the array that is written.  When there are too many
  hashes, the value is not consumed.
\<close>

fun hashes_loop :: "platform \<Rightarrow> string \<Rightarrow> jsmntok list \<Rightarrow> nat \<Rightarrow> nat \<Rightarrow> nat \<Rightarrow> crypto_hash list
    \<Rightarrow> (crypto_hash list \<times> (parse_target_result + nat \<times> nat)) option" where
  "hashes_loop pf message pool 0 idx hash_idx hs = Some (hs, Inr (idx, hash_idx))"
| "hashes_loop pf message pool (Suc n) idx hash_idx hs =
     (let alg = crypto_str_to_hashtype pf (tok_text message (pool ! idx));
          idx = idx + 1
      in if alg = CRYPTO_HASH_UNKNOWN then hashes_loop pf message pool n (consume_recursive_json pool idx) hash_idx hs
         else if TARGETS_MAX_HASHES \<le> hash_idx then hashes_loop pf message pool n idx hash_idx hs
         else if JSON_TOK_LEN (pool ! idx) \<noteq> int (crypto_get_hashlen pf alg * 2) then Some (hs, Inl PARSE_TARGET_ERROR)
         else do {
           (ok, bytes) \<leftarrow> hex2bin_into (tok_text message (pool ! idx)) (hash_bytes (hs ! hash_idx));
           let hs = hs[hash_idx := \<lparr>hash_alg = alg, hash_bytes = bytes\<rparr>];
           if \<not> ok then Some (hs, Inl PARSE_TARGET_ERROR)
           else hashes_loop pf message pool n (idx + 1) (hash_idx + 1) hs
         })"

fun target_loop :: "platform \<Rightarrow> device \<Rightarrow> string \<Rightarrow> jsmntok list \<Rightarrow> nat \<Rightarrow> nat \<Rightarrow> bool \<Rightarrow> uptane_targets
    \<Rightarrow> (uptane_targets \<times> (parse_target_result + nat \<times> bool)) option" where
  "target_loop pf dev message pool 0 idx for_me target = Some (target, Inr (idx, for_me))"
| "target_loop pf dev message pool (Suc n) idx for_me target =
     (if JSON_STR_EQUAL message (pool ! idx) ''custom'' then
        (let idx = idx + 1
         in if t_type (pool ! idx) \<noteq> JSMN_OBJECT then Some (target, Inl PARSE_TARGET_ERROR)
            else case custom_loop dev message pool (nat (t_size (pool ! idx))) (idx + 1) for_me of
                   Inl e \<Rightarrow> Some (target, Inl e)
                 | Inr (idx, for_me) \<Rightarrow> target_loop pf dev message pool n idx for_me target)
      else if JSON_STR_EQUAL message (pool ! idx) ''hashes'' then
        (let idx = idx + 1
         in if t_type (pool ! idx) \<noteq> JSMN_OBJECT then Some (target, Inl PARSE_TARGET_ERROR)
            else do {
              (hs, res) \<leftarrow> hashes_loop pf message pool (nat (t_size (pool ! idx))) (idx + 1) 0 (tg_hashes target);
              case res of
                Inl e \<Rightarrow> Some (target\<lparr>tg_hashes := hs\<rparr>, Inl e)
              | Inr (idx, hash_idx) \<Rightarrow>
                  target_loop pf dev message pool n idx for_me (target\<lparr>tg_hashes := hs, tg_hashes_num := hash_idx\<rparr>)
            })
      else if JSON_STR_EQUAL message (pool ! idx) ''length'' then
        (let t = pool ! (idx + 1)
         in case dec2int (tok_ptr message t) (nat (JSON_TOK_LEN t)) of
              None \<Rightarrow> Some (target, Inl PARSE_TARGET_ERROR)
            | Some len \<Rightarrow>
                if len < 0 then Some (target, Inl PARSE_TARGET_ERROR)
                else target_loop pf dev message pool n (idx + 2) for_me (target\<lparr>tg_length := nat len\<rparr>))
      else target_loop pf dev message pool n (consume_recursive_json pool (idx + 1)) for_me target)"

text \<open>
  \<open>memcpy\<close> copies the name without a terminating 0: what the buffer held behind it stays.  The result is the
  target, the answer and the new position.
\<close>

definition parse_target :: "platform \<Rightarrow> device \<Rightarrow> string \<Rightarrow> jsmntok list \<Rightarrow> nat \<Rightarrow> uptane_targets
    \<Rightarrow> (uptane_targets \<times> parse_target_result \<times> nat) option" where
  "parse_target pf dev message pool idx target =
     (let name_len = JSON_TOK_LEN (pool ! idx)
      in if t_type (pool ! idx) \<noteq> JSMN_STRING then Some (target, PARSE_TARGET_ERROR, idx)
         else if int TARGETS_MAX_NAME_LENGTH < name_len \<or> name_len \<le> 0 then Some (target, PARSE_TARGET_ERROR, idx)
         else
           let nm = tok_text message (pool ! idx);
               target = target\<lparr>tg_name := nm @ drop (length nm) (tg_name target)\<rparr>
           in if t_type (pool ! (idx + 1)) \<noteq> JSMN_OBJECT then Some (target, PARSE_TARGET_ERROR, idx)
              else do {
                (target, res) \<leftarrow> target_loop pf dev message pool (nat (t_size (pool ! (idx + 1)))) (idx + 2) False target;
                case res of
                  Inl e \<Rightarrow> Some (target, e, idx)
                | Inr (i, for_me) \<Rightarrow> Some (target, if for_me then PARSE_TARGET_FORME else PARSE_TARGET_NOTFORME, i)
              })"

section \<open>Consumed characters\<close>

fun skip_nontokens :: "string \<Rightarrow> nat" where
  "skip_nontokens [] = 0"
| "skip_nontokens (c # cs) =
     (if c \<in> {CHR '':'', CHR '','', CHR ''}'', CHR '']''} then skip_nontokens cs + 1 else 0)"

definition consumed_chars_newtoken :: "string \<Rightarrow> jsmntok list \<Rightarrow> nat \<Rightarrow> nat" where
  "consumed_chars_newtoken message pool idx =
     (let t = pool ! (idx - 1)
      in if 0 < t_end t then
           let res = nat (t_end t);
               res = (if t_type t = JSMN_STRING \<and> message ! res = CHR 0x22 then res + 1 else res)
           in res + skip_nontokens (drop res message)
         else nat (t_start t + 1))"

definition consumed_chars_nonewtoken :: "string \<Rightarrow> nat \<Rightarrow> nat" where
  "consumed_chars_nonewtoken message tpos = (if 0 < tpos then skip_nontokens message else 0)"

text \<open>The loop that looks for the innermost open container, from token \<open>i\<close> on.\<close>

partial_function (option) rewind_super :: "jsmntok list \<Rightarrow> int \<Rightarrow> int option" where
  "rewind_super pool i =
     (if 0 \<le> i \<and> ((t_type (pool ! nat i) \<noteq> JSMN_OBJECT \<and> t_type (pool ! nat i) \<noteq> JSMN_ARRAY) \<or> 0 \<le> t_end (pool ! nat i))
      then rewind_super pool (t_parent (pool ! nat i))
      else Some i)"

declare rewind_super.simps [code]

text \<open>The parent of a string is read without a check that there is one.\<close>

definition prepare_primary_parser :: "tstate \<Rightarrow> jsmn_parser option" where
  "prepare_primary_parser s =
     (let n = token_pos s; pool = token_pool s; t = pool ! (n - 1)
      in if n = 0 then Some \<lparr>pos = 0, toknext = 0, toksuper = -1\<rparr>
         else if t_type t = JSMN_STRING \<and> t_parent t < 0 then None
         else if t_type t = JSMN_STRING \<and> t_type (pool ! nat (t_parent t)) = JSMN_OBJECT
         then Some \<lparr>pos = 0, toknext = n, toksuper = int (n - 1)\<rparr>
         else map_option (\<lambda>i. \<lparr>pos = 0, toknext = n, toksuper = i\<rparr>) (rewind_super pool (int (n - 1))))"

section \<open>The state machine\<close>

text \<open>
  The local variables of \<open>uptane_parse_targets_feed\<close> extend the state: the targets to fill, the token index, two
  flags, and the result of an early return.
\<close>

record fstate = tstate +
  f_out :: uptane_targets
  f_idx :: nat
  f_begun :: bool
  f_break :: bool
  f_ret :: "targets_result option"

abbreviation tok_size_dec :: "jsmntok list \<Rightarrow> nat \<Rightarrow> jsmntok list" where
  "tok_size_dec pool i \<equiv> pool[i := (pool ! i)\<lparr>t_size := t_size (pool ! i) - 1\<rparr>]"

definition step_begin :: "fstate \<Rightarrow> fstate" where
  "step_begin f =
     (if t_type (token_pool f ! f_idx f) \<noteq> JSMN_OBJECT then f\<lparr>state := TARGETS_IN_ERROR\<rparr>
      else f\<lparr>state := TARGETS_IN_TOP, f_idx := f_idx f + 1\<rparr>)"

definition step_top :: "string \<Rightarrow> fstate \<Rightarrow> fstate" where
  "step_top message f =
     (let idx = f_idx f; t = token_pool f ! idx
      in if JSON_STR_EQUAL message t ''signatures'' then
           if idx = toknext (parser f) - 1 \<or> t_end (token_pool f ! (idx + 1)) < 0
           then f\<lparr>token_pool := tok_size_dec (token_pool f) 0, f_break := True\<rparr>
           else f\<lparr>state := TARGETS_IN_SIGNATURES, f_idx := idx + 1\<rparr>
         else if JSON_STR_EQUAL message t ''signed'' then
           if num_signatures f = 0 then f\<lparr>state := TARGETS_IN_ERROR\<rparr>
           else f\<lparr>state := TARGETS_BEFORE_SIGNED, f_idx := idx + 1\<rparr>
         else f\<lparr>prev_state := state f, state := TARGETS_IN_IGNORED, f_idx := idx + 1, ignored_top_token_pos := int (idx + 1)\<rparr>)"

text \<open>The tokens from \<open>idx\<close> on that start before \<open>fin\<close>, up to \<open>next\<close>.\<close>

function skip_inside :: "jsmntok list \<Rightarrow> int \<Rightarrow> nat \<Rightarrow> nat \<Rightarrow> nat" where
  "skip_inside pool fin next idx =
     (if idx < next \<and> t_start (pool ! idx) < fin then skip_inside pool fin next (idx + 1) else idx)"
  by pat_completeness auto
termination
  by (relation "measure (\<lambda>(pool, fin, next, idx). next - idx)") auto

declare skip_inside.simps [simp del]

definition step_ignored :: "fstate \<Rightarrow> fstate" where
  "step_ignored f =
     (let idx = f_idx f; fin = t_end (token_pool f ! nat (ignored_top_token_pos f))
      in if ignored_top_token_pos f = int idx then f\<lparr>f_idx := idx + 1\<rparr>
         else if fin < 0 then f\<lparr>f_idx := idx + 1\<rparr>
         else f\<lparr>f_idx := skip_inside (token_pool f) fin (toknext (parser f)) idx, state := prev_state f\<rparr>)"

definition step_signatures :: "platform \<Rightarrow> device \<Rightarrow> string \<Rightarrow> fstate \<Rightarrow> fstate option" where
  "step_signatures pf dev message f =
     (if t_end (token_pool f ! f_idx f) < 0 then Some (f\<lparr>f_break := True\<rparr>)
      else do {
        res \<leftarrow> uptane_parse_signatures ROLE_TARGETS message (token_pool f) (f_idx f) (signature_pool_size pf) (d_root dev);
        case res of
          Inl e \<Rightarrow> Some (f\<lparr>state := TARGETS_IN_ERROR\<rparr>)
        | Inr (idx, sigs) \<Rightarrow>
            if sigs = [] then Some (f\<lparr>f_idx := idx, state := TARGETS_IN_ERROR\<rparr>)
            else Some (f\<lparr>f_idx := idx, signature_pool := sigs @ drop (length sigs) (signature_pool f),
                         num_signatures := length sigs, state := TARGETS_IN_TOP\<rparr>)
      })"

definition step_before_signed :: "platform \<Rightarrow> fstate \<Rightarrow> fstate" where
  "step_before_signed pf f =
     (let idx = f_idx f
      in if t_type (token_pool f ! idx) \<noteq> JSMN_OBJECT then f\<lparr>state := TARGETS_IN_ERROR\<rparr>
         else f\<lparr>signed_top_token_pos := int idx,
                num_signatures := (if crypto_ctx_pool_size pf < num_signatures f then crypto_ctx_pool_size pf else num_signatures f),
                begin_signed := t_start (token_pool f ! idx), f_begun := True,
                state := TARGETS_IN_SIGNED, f_idx := idx + 1\<rparr>)"

text \<open>A name of the signed object whose value has not been read yet.\<close>

definition wait_for_value :: "fstate \<Rightarrow> fstate" where
  "wait_for_value f =
     f\<lparr>token_pool := tok_size_dec (token_pool f) (nat (signed_top_token_pos f)), f_break := True\<rparr>"

definition step_signed :: "device \<Rightarrow> string \<Rightarrow> fstate \<Rightarrow> fstate option" where
  "step_signed dev message f =
     (let idx = f_idx f; pool = token_pool f; top = pool ! nat (signed_top_token_pos f);
          t = pool ! idx; v = pool ! (idx + 1); no_value = (idx = toknext (parser f) - 1)
      in if 0 \<le> t_end top \<and> t_size top \<le> signed_elems_read f then Some (f\<lparr>state := TARGETS_IN_TOP\<rparr>)
         else if JSON_STR_EQUAL message t ''_type'' then
           if no_value then Some (wait_for_value f)
           else
             let f = f\<lparr>f_idx := idx + 1, signed_elems_read := signed_elems_read f + 1\<rparr>
             in if \<not> JSON_STR_EQUAL message v ''Targets'' then Some (f\<lparr>state := TARGETS_IN_ERROR\<rparr>)
                else Some (f\<lparr>f_idx := idx + 2\<rparr>)
         else if JSON_STR_EQUAL message t ''expires'' then
           if no_value then Some (wait_for_value f)
           else
             let f = f\<lparr>f_idx := idx + 1, signed_elems_read := signed_elems_read f + 1\<rparr>
             in (case str2time (tok_text message v) of
                   None \<Rightarrow> Some (f\<lparr>state := TARGETS_IN_ERROR\<rparr>)
                 | Some expires \<Rightarrow> Some (f\<lparr>f_out := (f_out f)\<lparr>tg_expires := expires\<rparr>, f_idx := idx + 2\<rparr>))
         else if JSON_STR_EQUAL message t ''version'' then
           if no_value then Some (wait_for_value f)
           else
             let f = f\<lparr>f_idx := idx + 1, signed_elems_read := signed_elems_read f + 1\<rparr>
             in (case dec2int (tok_ptr message v) (nat (JSON_TOK_LEN v)) of
                   None \<Rightarrow> Some (f\<lparr>state := TARGETS_IN_ERROR\<rparr>)
                 | Some version \<Rightarrow>
                     (case d_targets dev of
                        None \<Rightarrow> None
                      | Some old \<Rightarrow>
                          if version < tg_version old
                          then Some (f\<lparr>state := TARGETS_IN_ERROR, f_ret := Some RESULT_VERSION_FAILED\<rparr>)
                          else Some (f\<lparr>f_out := (f_out f)\<lparr>tg_version := version\<rparr>, f_idx := idx + 2\<rparr>)))
         else if JSON_STR_EQUAL message t ''targets'' then
           if no_value then Some (wait_for_value f)
           else Some (f\<lparr>state := (if t_type v \<noteq> JSMN_OBJECT then TARGETS_IN_ERROR else TARGETS_IN_TARGETS),
                        targets_top_token_pos := int (idx + 1), f_idx := idx + 2\<rparr>)
         else Some (f\<lparr>prev_state := state f, state := TARGETS_IN_IGNORED, f_idx := idx + 1,
                      signed_elems_read := signed_elems_read f + 1, ignored_top_token_pos := int (idx + 1)\<rparr>))"

definition take_target :: "parse_target_result \<Rightarrow> fstate \<Rightarrow> fstate" where
  "take_target res f =
     (case res of
        PARSE_TARGET_ERROR \<Rightarrow> f\<lparr>state := TARGETS_IN_ERROR\<rparr>
      | PARSE_TARGET_NOTFORME \<Rightarrow> f
      | PARSE_TARGET_FORME \<Rightarrow>
          if target_found f then f\<lparr>state := TARGETS_IN_ERROR\<rparr>
          else f\<lparr>target_found := True,
                 f_out := (f_out f)\<lparr>tg_hashes_num := tg_hashes_num (tmp_target f), tg_name := tg_name (tmp_target f),
                                    tg_hashes := tg_hashes (tmp_target f), tg_length := tg_length (tmp_target f)\<rparr>\<rparr>
      | PARSE_TARGET_WRONG_HW_ID \<Rightarrow> f\<lparr>state := TARGETS_IN_ERROR, f_ret := Some RESULT_WRONG_HW_ID\<rparr>)"

text \<open>When the target is not complete, the index is moved back to the token before its name.\<close>

definition step_targets :: "platform \<Rightarrow> device \<Rightarrow> string \<Rightarrow> fstate \<Rightarrow> fstate option" where
  "step_targets pf dev message f =
     (let idx = f_idx f; pool = token_pool f; top = pool ! nat (targets_top_token_pos f)
      in if 0 \<le> t_end top \<and> t_size top \<le> targets_elems_read f
         then Some (f\<lparr>signed_elems_read := signed_elems_read f + 1, state := TARGETS_IN_SIGNED\<rparr>)
         else if t_type (pool ! idx) \<noteq> JSMN_STRING then Some (f\<lparr>state := TARGETS_IN_ERROR\<rparr>)
         else if idx + 1 < toknext (parser f) \<and> 0 < t_end (pool ! (idx + 1)) then do {
           (tgt, res, i) \<leftarrow> parse_target pf dev message pool idx (tmp_target f);
           let f = take_target res (f\<lparr>tmp_target := tgt, f_idx := idx + 1\<rparr>);
           if f_ret f \<noteq> None then Some f
           else Some (f\<lparr>f_idx := i, targets_elems_read := targets_elems_read f + 1\<rparr>)
         }
         else Some (f\<lparr>f_idx := idx - 1, token_pool := tok_size_dec pool (nat (targets_top_token_pos f)), f_break := True\<rparr>))"

definition feed_step :: "platform \<Rightarrow> device \<Rightarrow> string \<Rightarrow> fstate \<Rightarrow> fstate option" where
  "feed_step pf dev message f =
     (case state f of
        TARGETS_BEGIN \<Rightarrow> Some (step_begin f)
      | TARGETS_IN_TOP \<Rightarrow> Some (step_top message f)
      | TARGETS_IN_IGNORED \<Rightarrow> Some (step_ignored f)
      | TARGETS_IN_SIGNATURES \<Rightarrow> step_signatures pf dev message f
      | TARGETS_BEFORE_SIGNED \<Rightarrow> Some (step_before_signed pf f)
      | TARGETS_IN_SIGNED \<Rightarrow> step_signed dev message f
      | TARGETS_IN_TARGETS \<Rightarrow> step_targets pf dev message f
      | TARGETS_IN_ERROR \<Rightarrow> Some (f\<lparr>state := TARGETS_IN_ERROR\<rparr>))"

text \<open>The loop; an early return leaves it.\<close>

partial_function (option) feed_loop :: "platform \<Rightarrow> device \<Rightarrow> string \<Rightarrow> fstate \<Rightarrow> fstate option" where
  "feed_loop pf dev message f =
     (if f_ret f = None \<and> f_idx f < toknext (parser f) \<and> \<not> f_break f \<and> state f \<noteq> TARGETS_IN_ERROR
      then Option.bind (feed_step pf dev message f) (feed_loop pf dev message)
      else Some f)"

declare feed_loop.simps [code]

section \<open>Signatures and the whole call\<close>

text \<open>
  The check of the signatures behind the loop.  Every context is fed the part of the signed object that is in
  this message; \<open>f_ret\<close> is set when there are too few valid signatures.
\<close>

definition signed_ended :: "fstate \<Rightarrow> bool" where
  "signed_ended f \<longleftrightarrow> 0 \<le> signed_top_token_pos f \<and> end_signed f < 0 \<and> 0 \<le> t_end (token_pool f ! nat (signed_top_token_pos f))"

definition verify_begin :: "fstate \<Rightarrow> fstate" where
  "verify_begin f =
     (let n = num_signatures f
      in if f_begun f
         then f\<lparr>in_signed := True, ctx_sig := take n (signature_pool f) @ drop n (ctx_sig f),
                ctx_data := replicate n [] @ drop n (ctx_data f)\<rparr>
         else f)"

definition verify_feed :: "string \<Rightarrow> bool \<Rightarrow> fstate \<Rightarrow> fstate" where
  "verify_feed message ended f =
     (if in_signed f then
        let n = num_signatures f;
            first_signed = (if f_begun f then nat (begin_signed f) else tail_length f);
            last_signed = (if ended then nat (end_signed f) else length message);
            part = take (last_signed - first_signed) (drop first_signed message)
        in f\<lparr>ctx_data := map (\<lambda>d. d @ part) (take n (ctx_data f)) @ drop n (ctx_data f)\<rparr>
      else f)"

definition valid_contexts :: "platform \<Rightarrow> 'a tstate_scheme \<Rightarrow> nat" where
  "valid_contexts pf s = length (filter (\<lambda>(sg, d). verify pf sg d) (take (num_signatures s) (zip (ctx_sig s) (ctx_data s))))"

definition verify_end :: "platform \<Rightarrow> device \<Rightarrow> fstate \<Rightarrow> fstate" where
  "verify_end pf dev f =
     (let f = f\<lparr>in_signed := False\<rparr>
      in if int (valid_contexts pf f) < targets_threshold (d_root dev)
         then f\<lparr>state := TARGETS_IN_ERROR, f_ret := Some RESULT_SIGNATURES_FAILED\<rparr>
         else f)"

definition feed_verify :: "platform \<Rightarrow> device \<Rightarrow> string \<Rightarrow> fstate \<Rightarrow> fstate" where
  "feed_verify pf dev message f =
     (let ended = signed_ended f;
          f1 = (if ended then f\<lparr>end_signed := t_end (token_pool f ! nat (signed_top_token_pos f))\<rparr> else f);
          f2 = verify_feed message ended (verify_begin f1)
      in if ended then verify_end pf dev f2 else f2)"

definition feed_result :: "fstate \<Rightarrow> targets_result" where
  "feed_result f =
     (if 0 < f_idx f \<and> 0 \<le> t_end (token_pool f ! 0)
      then if \<not> target_found f then RESULT_END_NOT_FOUND else RESULT_END_FOUND
      else RESULT_IN_PROGRESS)"

definition feed_consumed :: "string \<Rightarrow> fstate \<Rightarrow> nat" where
  "feed_consumed message f =
     (if token_pos f < f_idx f then consumed_chars_newtoken message (token_pool f) (f_idx f)
      else consumed_chars_nonewtoken message (token_pos f))"

text \<open>What follows the loop: the new state, the filled targets, the returned number and \<open>*result\<close>.\<close>

definition feed_finish :: "platform \<Rightarrow> device \<Rightarrow> string \<Rightarrow> fstate \<Rightarrow> tstate \<times> uptane_targets \<times> int \<times> targets_result" where
  "feed_finish pf dev message f =
     (if f_ret f \<noteq> None then (tstate.truncate f, f_out f, -1, the (f_ret f))
      else if state f = TARGETS_IN_ERROR then (tstate.truncate f, f_out f, -1, RESULT_ERROR)
      else
        let g = feed_verify pf dev message f
        in if f_ret g \<noteq> None then (tstate.truncate g, f_out g, -1, the (f_ret g))
           else
             let ret = feed_consumed message g;
                 h = g\<lparr>token_pos := max (token_pos g) (f_idx g), tail_length := length message - ret\<rparr>
             in (tstate.truncate h, f_out h, int ret, feed_result g))"

definition uptane_parse_targets_feed :: "platform \<Rightarrow> device \<Rightarrow> string \<Rightarrow> tstate \<Rightarrow> uptane_targets
    \<Rightarrow> (tstate \<times> uptane_targets \<times> int \<times> targets_result) option" where
  "uptane_parse_targets_feed pf dev message s out =
     (if state s = TARGETS_IN_ERROR then Some (s, out, -1, RESULT_ERROR)
      else do {
        p \<leftarrow> prepare_primary_parser s;
        (res, p, pool) \<leftarrow> jsmn_parse p message (token_pool s);
        f \<leftarrow> feed_loop pf dev message
               (tstate.extend (s\<lparr>parser := p, token_pool := pool\<rparr>)
                  (fstate.fields out (token_pos s) False False None));
        Some (feed_finish pf dev message f)
      })"

section \<open>Positions move forward\<close>

text \<open>Every loop over tokens ends at or behind the position where it starts.\<close>

lemma consume_recursive_json_gt: "i < consume_recursive_json pool i"
  using consume_loop_spec [of "i + 1" pool "t_end (pool ! i)"] by (auto simp: consume_recursive_json_def)

lemma consume_after: "i + 1 < consume_recursive_json pool (i + 1)"
  using consume_recursive_json_gt [of "i + 1" pool] by simp

lemma parse_sig_loop_ge:
  "parse_sig_loop ks js pool n idx key sg = Some (idx', key', sg') \<Longrightarrow> idx \<le> idx'"
proof (induction n arbitrary: idx key sg)
  case (Suc n)
  then obtain i k s where "parse_sig_loop ks js pool n i k s = Some (idx', key', sg')" "idx < i"
    using consume_after [of idx pool]
    by (auto simp: Let_def bind_eq_Some_conv split: if_splits)
  with Suc.IH show ?case by fastforce
qed simp

lemma parse_sigs_loop_ge:
  "parse_sigs_loop ks js pool m n idx out = Some (Inr (idx', out')) \<Longrightarrow> idx \<le> idx'"
proof (induction n arbitrary: idx out)
  case (Suc n)
  show ?case
  proof (cases "m \<le> length out")
    case True
    with Suc.prems show ?thesis by simp
  next
    case False
    with Suc.prems obtain res where res: "parse_sig ks js pool idx = Some res" by (auto simp: bind_eq_Some_conv)
    with False Suc.prems obtain i sg where r: "res = Inr (i, sg)" by (cases res) auto
    with res have "idx + 1 \<le> i"
      by (auto simp: parse_sig_def bind_eq_Some_conv dest!: parse_sig_loop_ge split: if_splits)
    moreover have "i \<le> idx'" using Suc.IH False Suc.prems res r by auto
    ultimately show ?thesis by simp
  qed
qed simp

lemma uptane_parse_signatures_gt:
  "uptane_parse_signatures role js pool idx m r = Some (Inr (idx', out)) \<Longrightarrow> idx < idx'"
  by (auto simp: uptane_parse_signatures_def Let_def dest!: parse_sigs_loop_ge split: if_splits)

lemma hwid_loop_ge: "hwid_loop h js pool b n idx = Inr idx' \<Longrightarrow> idx \<le> idx'"
proof (induction n arbitrary: idx)
  case (Suc n)
  then obtain i where "hwid_loop h js pool b n i = Inr idx'" "idx < i"
    using consume_after [of idx pool] by (auto split: if_splits)
  with Suc.IH show ?case by fastforce
qed simp

lemma ecu_loop_ge: "ecu_loop dev js pool n idx b = Inr (idx', b') \<Longrightarrow> idx \<le> idx'"
proof (induction n arbitrary: idx b)
  case (Suc n)
  then obtain i c where "ecu_loop dev js pool n i c = Inr (idx', b')" "idx < i"
    by (auto simp: Let_def dest!: hwid_loop_ge split: if_splits sum.splits)
  with Suc.IH show ?case by fastforce
qed simp

lemma custom_loop_ge: "custom_loop dev js pool n idx b = Inr (idx', b') \<Longrightarrow> idx \<le> idx'"
proof (induction n arbitrary: idx b)
  case (Suc n)
  then obtain i c where "custom_loop dev js pool n i c = Inr (idx', b')" "idx < i"
    using consume_after [of idx pool]
    by (auto simp: Let_def dest!: ecu_loop_ge split: if_splits sum.splits)
  with Suc.IH show ?case by fastforce
qed simp

lemma hashes_loop_ge:
  "hashes_loop pf js pool n idx h hs = Some (hs', Inr (idx', h')) \<Longrightarrow> idx \<le> idx'"
proof (induction n arbitrary: idx h hs)
  case (Suc n)
  then obtain i g gs where "hashes_loop pf js pool n i g gs = Some (hs', Inr (idx', h'))" "idx < i"
    using consume_after [of idx pool]
    by (auto simp: Let_def bind_eq_Some_conv split: if_splits)
  with Suc.IH show ?case by fastforce
qed simp

lemma target_loop_ge:
  "target_loop pf dev js pool n idx b tgt = Some (tgt', Inr (idx', b')) \<Longrightarrow> idx \<le> idx'"
proof (induction n arbitrary: idx b tgt)
  case (Suc n)
  consider (custom) "JSON_STR_EQUAL js (pool ! idx) ''custom''"
    | (hashes) "\<not> JSON_STR_EQUAL js (pool ! idx) ''custom''" "JSON_STR_EQUAL js (pool ! idx) ''hashes''"
    | (other) "\<not> JSON_STR_EQUAL js (pool ! idx) ''custom''" "\<not> JSON_STR_EQUAL js (pool ! idx) ''hashes''" by blast
  then obtain i c t where "target_loop pf dev js pool n i c t = Some (tgt', Inr (idx', b'))" "idx < i"
  proof cases
    case custom
    with Suc.prems that show ?thesis
      by (auto simp: Let_def dest!: custom_loop_ge split: if_splits sum.splits)
  next
    case hashes
    with Suc.prems obtain hs res where
      h: "hashes_loop pf js pool (nat (t_size (pool ! (idx + 1)))) (idx + 1 + 1) 0 (tg_hashes tgt) = Some (hs, res)"
      by (auto simp: Let_def bind_eq_Some_conv split: if_splits)
    with hashes Suc.prems obtain i g where r: "res = Inr (i, g)" by (cases res) (auto simp: Let_def split: if_splits)
    with h hashes_loop_ge [of pf js pool] have "idx < i" by fastforce
    with that h r hashes Suc.prems show ?thesis by (auto simp: Let_def split: if_splits)
  next
    case other
    with Suc.prems that consume_after [of idx pool] show ?thesis
      by (auto simp: Let_def split: if_splits option.splits)
  qed
  with Suc.IH show ?case by fastforce
qed simp

text \<open>An early return is one of two answers.\<close>

lemma hwid_loop_Inl: "hwid_loop h js pool b n idx = Inl e \<Longrightarrow> e = PARSE_TARGET_WRONG_HW_ID"
  by (induction n arbitrary: idx) (auto split: if_splits)

lemma ecu_loop_Inl: "ecu_loop dev js pool n idx b = Inl e \<Longrightarrow> e \<in> {PARSE_TARGET_ERROR, PARSE_TARGET_WRONG_HW_ID}"
  by (induction n arbitrary: idx b) (auto simp: Let_def dest: hwid_loop_Inl split: if_splits sum.splits)

lemma custom_loop_Inl: "custom_loop dev js pool n idx b = Inl e \<Longrightarrow> e \<in> {PARSE_TARGET_ERROR, PARSE_TARGET_WRONG_HW_ID}"
proof (induction n arbitrary: idx b)
  case (Suc n)
  show ?case
  proof (cases "ecu_loop dev js pool (nat (t_size (pool ! (idx + 1)))) (idx + 1 + 1) b")
    case (Inl a)
    with Suc ecu_loop_Inl [OF Inl] show ?thesis by (auto simp: Let_def split: if_splits)
  next
    case (Inr r)
    with Suc show ?thesis by (cases r) (auto simp: Let_def split: if_splits)
  qed
qed simp

lemma hashes_loop_Inl: "hashes_loop pf js pool n idx h hs = Some (hs', Inl e) \<Longrightarrow> e = PARSE_TARGET_ERROR"
proof (induction n arbitrary: idx h hs)
  case (Suc n)
  then show ?case by (auto simp: Let_def bind_eq_Some_conv split: if_splits)
qed simp

lemma target_loop_Inl:
  "target_loop pf dev js pool n idx b tgt = Some (tgt', Inl e) \<Longrightarrow> e \<in> {PARSE_TARGET_ERROR, PARSE_TARGET_WRONG_HW_ID}"
proof (induction n arbitrary: idx b tgt)
  case (Suc n)
  consider (custom) "JSON_STR_EQUAL js (pool ! idx) ''custom''"
    | (hashes) "\<not> JSON_STR_EQUAL js (pool ! idx) ''custom''" "JSON_STR_EQUAL js (pool ! idx) ''hashes''"
    | (other) "\<not> JSON_STR_EQUAL js (pool ! idx) ''custom''" "\<not> JSON_STR_EQUAL js (pool ! idx) ''hashes''" by blast
  then show ?case
  proof cases
    case custom
    show ?thesis
    proof (cases "custom_loop dev js pool (nat (t_size (pool ! (idx + 1)))) (idx + 1 + 1) b")
      case (Inl a)
      with Suc.prems custom custom_loop_Inl [OF Inl] show ?thesis by (auto simp: Let_def split: if_splits)
    next
      case (Inr r)
      with Suc custom show ?thesis by (cases r) (auto simp: Let_def split: if_splits)
    qed
  next
    case hashes
    show ?thesis
    proof (cases "t_type (pool ! (idx + 1)) = JSMN_OBJECT")
      case True
      with hashes Suc.prems obtain hs res where
        h: "hashes_loop pf js pool (nat (t_size (pool ! (idx + 1)))) (idx + 1 + 1) 0 (tg_hashes tgt) = Some (hs, res)"
        by (auto simp: Let_def bind_eq_Some_conv)
      show ?thesis
      proof (cases res)
        case (Inl a)
        with h hashes_loop_Inl [of pf js pool] have "a = PARSE_TARGET_ERROR" by fastforce
        with h Inl True hashes Suc.prems show ?thesis by (auto simp: Let_def)
      next
        case (Inr r)
        with h True hashes Suc show ?thesis by (cases r) (auto simp: Let_def)
      qed
    next
      case False
      with hashes Suc.prems show ?thesis by (auto simp: Let_def)
    qed
  next
    case other
    with Suc show ?thesis by (auto simp: Let_def split: if_splits option.splits)
  qed
qed simp

lemma parse_target_gt:
  assumes "parse_target pf dev js pool idx tgt = Some (tgt', res, i)"
    and "res \<noteq> PARSE_TARGET_ERROR" "res \<noteq> PARSE_TARGET_WRONG_HW_ID"
  shows "idx < i"
proof -
  let ?t = "tgt\<lparr>tg_name := tok_text js (pool ! idx) @ drop (length (tok_text js (pool ! idx))) (tg_name tgt)\<rparr>"
  from assms obtain t r where
    l: "target_loop pf dev js pool (nat (t_size (pool ! (idx + 1)))) (idx + 2) False ?t = Some (t, r)"
    by (auto simp: parse_target_def Let_def bind_eq_Some_conv split: if_splits)
  show ?thesis
  proof (cases r)
    case (Inl e)
    with l assms have "res = e" by (auto simp: parse_target_def Let_def split: if_splits)
    with l Inl assms(2,3) target_loop_Inl [of pf dev js pool] show ?thesis by fastforce
  next
    case (Inr a)
    with l assms have "i = fst a" by (cases a) (auto simp: parse_target_def Let_def split: if_splits)
    with Inr l target_loop_ge [of pf dev js pool] show ?thesis by (cases a) fastforce
  qed
qed

section \<open>Termination of the state machine\<close>

definition state_rank :: "parsing_state \<Rightarrow> nat" where
  "state_rank st = (case st of TARGETS_IN_IGNORED \<Rightarrow> 3 | TARGETS_IN_TARGETS \<Rightarrow> 2 | TARGETS_IN_SIGNED \<Rightarrow> 1 | _ \<Rightarrow> 0)"

definition work_left :: "'a fstate_scheme \<Rightarrow> nat" where
  "work_left f = 4 * (toknext (parser f) - f_idx f) + state_rank (state f)"

definition running :: "'a fstate_scheme \<Rightarrow> bool" where
  "running f \<longleftrightarrow> f_ret f = None \<and> f_idx f < toknext (parser f) \<and> \<not> f_break f \<and> state f \<noteq> TARGETS_IN_ERROR"

definition return_ok :: "'a tstate_scheme \<Rightarrow> bool" where
  "return_ok f \<longleftrightarrow> (state f = TARGETS_IN_IGNORED \<longrightarrow> prev_state f \<in> {TARGETS_IN_TOP, TARGETS_IN_SIGNED})"

lemma skip_inside_ge: "idx \<le> skip_inside pool fin nxt idx"
proof (induction pool fin nxt idx rule: skip_inside.induct)
  case (1 pool fin nxt idx)
  then show ?case by (subst skip_inside.simps) auto
qed

text \<open>One step: what is left shrinks or the loop stops, and the return state stays known.\<close>

definition progress :: "fstate \<Rightarrow> fstate \<Rightarrow> bool" where
  "progress f f' \<longleftrightarrow> parser f' = parser f \<and> return_ok f' \<and> (running f' \<longrightarrow> work_left f' < work_left f)"

lemma progressI:
  assumes "running f" and "parser f' = parser f" and "return_ok f'" and "\<not> running f' \<or> f_idx f < f_idx f'"
  shows "progress f f'"
  using assms by (auto simp: progress_def work_left_def running_def state_rank_def split: parsing_state.split)

lemma step_ignored_progress:
  assumes "running f" "return_ok f" "state f = TARGETS_IN_IGNORED"
  shows "progress f (step_ignored f)"
proof (cases "ignored_top_token_pos f = int (f_idx f) \<or> t_end (token_pool f ! nat (ignored_top_token_pos f)) < 0")
  case True
  then show ?thesis using assms by (intro progressI) (auto simp: step_ignored_def Let_def return_ok_def)
next
  case False
  let ?i = "skip_inside (token_pool f) (t_end (token_pool f ! nat (ignored_top_token_pos f))) (toknext (parser f)) (f_idx f)"
  have "step_ignored f = f\<lparr>f_idx := ?i, state := prev_state f\<rparr>" using False by (simp add: step_ignored_def Let_def)
  moreover have "4 * (toknext (parser f) - ?i) \<le> 4 * (toknext (parser f) - f_idx f)"
    using skip_inside_ge [of "f_idx f" "token_pool f"] by (simp add: diff_le_mono2)
  ultimately show ?thesis
    using assms by (auto simp: progress_def work_left_def state_rank_def return_ok_def)
qed

lemma step_simple_progress:
  assumes "running f"
  shows "progress f (step_begin f)" "state f = TARGETS_IN_TOP \<Longrightarrow> progress f (step_top js f)" "progress f (step_before_signed pf f)"
  using assms by (intro progressI; auto simp: step_begin_def step_top_def step_before_signed_def Let_def return_ok_def running_def)+

lemma step_signatures_progress:
  assumes "running f" "state f = TARGETS_IN_SIGNATURES" "step_signatures pf dev js f = Some f'"
  shows "progress f f'"
proof (cases "t_end (token_pool f ! f_idx f) < 0")
  case True
  with assms have "f' = f\<lparr>f_break := True\<rparr>" by (simp add: step_signatures_def)
  with assms show ?thesis by (intro progressI) (auto simp: return_ok_def running_def)
next
  case False
  with assms(3) obtain res where
    r: "uptane_parse_signatures ROLE_TARGETS js (token_pool f) (f_idx f) (signature_pool_size pf) (d_root dev) = Some res"
    by (auto simp: step_signatures_def bind_eq_Some_conv)
  show ?thesis
  proof (cases res)
    case (Inl e)
    with False r assms show ?thesis by (intro progressI) (auto simp: step_signatures_def return_ok_def running_def)
  next
    case (Inr a)
    with False r assms uptane_parse_signatures_gt show ?thesis
      by (cases a) (intro progressI; fastforce simp: step_signatures_def return_ok_def running_def split: if_splits)
  qed
qed

lemma step_signed_progress:
  assumes "running f" "state f = TARGETS_IN_SIGNED" "step_signed dev js f = Some f'"
  shows "progress f f'"
proof (cases "0 \<le> t_end (token_pool f ! nat (signed_top_token_pos f)) \<and>
    t_size (token_pool f ! nat (signed_top_token_pos f)) \<le> signed_elems_read f")
  case True
  with assms have "f' = f\<lparr>state := TARGETS_IN_TOP\<rparr>" by (simp add: step_signed_def Let_def)
  with assms show ?thesis by (simp add: progress_def return_ok_def work_left_def state_rank_def)
next
  case False
  with assms show ?thesis
    by (intro progressI)
      (auto simp: step_signed_def wait_for_value_def Let_def return_ok_def running_def split: if_splits option.splits)
qed

lemma step_targets_progress:
  assumes "running f" "state f = TARGETS_IN_TARGETS" "step_targets pf dev js f = Some f'"
  shows "progress f f'"
proof (cases "0 \<le> t_end (token_pool f ! nat (targets_top_token_pos f)) \<and>
    t_size (token_pool f ! nat (targets_top_token_pos f)) \<le> targets_elems_read f")
  case True
  with assms have "f' = f\<lparr>signed_elems_read := signed_elems_read f + 1, state := TARGETS_IN_SIGNED\<rparr>"
    by (simp add: step_targets_def Let_def)
  with assms show ?thesis by (simp add: progress_def return_ok_def work_left_def state_rank_def)
next
  case False
  show ?thesis
  proof (cases "t_type (token_pool f ! f_idx f) = JSMN_STRING \<and> f_idx f + 1 < toknext (parser f) \<and> 0 < t_end (token_pool f ! (f_idx f + 1))")
    case True
    with False assms(3) obtain tgt res i where p: "parse_target pf dev js (token_pool f) (f_idx f) (tmp_target f) = Some (tgt, res, i)"
      by (auto simp: step_targets_def Let_def bind_eq_Some_conv)
    with parse_target_gt have "res \<noteq> PARSE_TARGET_ERROR \<Longrightarrow> res \<noteq> PARSE_TARGET_WRONG_HW_ID \<Longrightarrow> f_idx f < i" by blast
    with True False p assms show ?thesis
      by (intro progressI)
        (cases res; auto simp: step_targets_def take_target_def Let_def return_ok_def running_def split: if_splits)+
  next
    case inc: False
    with False assms show ?thesis
      by (intro progressI) (auto simp: step_targets_def Let_def return_ok_def running_def split: if_splits)
  qed
qed

lemma feed_step_progress:
  assumes "running f" "return_ok f" "feed_step pf dev js f = Some f'"
  shows "progress f f'"
proof (cases "state f")
  case TARGETS_IN_ERROR
  with assms(1) show ?thesis by (simp add: running_def)
qed (use assms step_simple_progress step_ignored_progress step_signatures_progress step_signed_progress step_targets_progress
    in \<open>auto simp: feed_step_def\<close>)

text \<open>Running the steps of the loop \<open>n\<close> times.\<close>

primrec feed_steps :: "nat \<Rightarrow> platform \<Rightarrow> device \<Rightarrow> string \<Rightarrow> fstate \<Rightarrow> fstate option" where
  "feed_steps 0 pf dev js f = Some f"
| "feed_steps (Suc n) pf dev js f = (if running f then Option.bind (feed_step pf dev js f) (feed_steps n pf dev js) else Some f)"

lemma feed_loop_unfold:
  "feed_loop pf dev js f = (if running f then Option.bind (feed_step pf dev js f) (feed_loop pf dev js) else Some f)"
  by (subst feed_loop.simps) (simp add: running_def)

lemma feed_loop_stop: "\<not> running f \<Longrightarrow> feed_loop pf dev js f = Some f"
  by (subst feed_loop_unfold) (simp only: if_False)

lemma feed_loop_run: "running f \<Longrightarrow> feed_loop pf dev js f = Option.bind (feed_step pf dev js f) (feed_loop pf dev js)"
  by (subst feed_loop_unfold) (simp only: if_True)

lemma feed_steps_stop: "\<not> running f \<Longrightarrow> feed_steps n pf dev js f = Some f"
  by (cases n) simp_all

lemma feed_loop_steps:
  assumes "return_ok f" and "work_left f \<le> n"
  shows "feed_loop pf dev js f = feed_steps (Suc n) pf dev js f \<and>
    (\<forall>f'. feed_steps (Suc n) pf dev js f = Some f' \<longrightarrow> \<not> running f')"
  using assms
proof (induction n arbitrary: f)
  case 0
  have "\<not> running f" using 0(2) by (simp add: work_left_def running_def)
  then show ?case by (simp add: feed_loop_stop feed_steps_stop del: feed_steps.simps)
next
  case (Suc n)
  show ?case
  proof (cases "running f")
    case True
    have s: "feed_steps (Suc (Suc n)) pf dev js f = Option.bind (feed_step pf dev js f) (feed_steps (Suc n) pf dev js)"
      using True by (simp only: feed_steps.simps if_True)
    show ?thesis
    proof (cases "feed_step pf dev js f")
      case None
      then show ?thesis unfolding s feed_loop_run [OF True] by simp
    next
      case (Some g)
      then have eq: "feed_loop pf dev js f = feed_loop pf dev js g"
        "feed_steps (Suc (Suc n)) pf dev js f = feed_steps (Suc n) pf dev js g"
        unfolding s feed_loop_run [OF True] by (simp_all only: Option.bind.simps)
      have g: "progress f g" by (rule feed_step_progress [OF True Suc.prems(1) Some])
      show ?thesis
      proof (cases "running g")
        case rg: True
        with g Suc.prems(2) have "return_ok g" "work_left g \<le> n" by (auto simp: progress_def)
        from Suc.IH [OF this] show ?thesis unfolding eq .
      next
        case False
        then show ?thesis unfolding eq by (simp add: feed_loop_stop feed_steps_stop del: feed_steps.simps)
      qed
    qed
  next
    case False
    then show ?thesis by (simp add: feed_loop_stop feed_steps_stop del: feed_steps.simps)
  qed
qed

section \<open>What a step may change\<close>

definition same_target :: "uptane_targets \<Rightarrow> uptane_targets \<Rightarrow> bool" where
  "same_target a b \<longleftrightarrow> tg_name a = tg_name b \<and> tg_hashes_num a = tg_hashes_num b \<and> tg_hashes a = tg_hashes b \<and> tg_length a = tg_length b"

definition frame :: "fstate \<Rightarrow> fstate \<Rightarrow> bool" where
  "frame f f' \<longleftrightarrow> token_pos f' = token_pos f \<and> end_signed f' = end_signed f \<and> in_signed f' = in_signed f \<and>
     tail_length f' = tail_length f \<and> ctx_sig f' = ctx_sig f \<and> ctx_data f' = ctx_data f \<and> parser f' = parser f"

definition ret_kept :: "fstate \<Rightarrow> fstate \<Rightarrow> bool" where
  "ret_kept f f' \<longleftrightarrow> f_ret f' = f_ret f \<or> state f' = TARGETS_IN_ERROR"

definition version_kept :: "device \<Rightarrow> uptane_targets \<Rightarrow> uptane_targets \<Rightarrow> bool" where
  "version_kept dev a b \<longleftrightarrow> tg_version b = tg_version a \<or>
     (\<exists>old. d_targets dev = Some old \<and> tg_version old \<le> tg_version b)"

definition target_kept :: "bool \<Rightarrow> uptane_targets \<Rightarrow> bool \<Rightarrow> uptane_targets \<Rightarrow> bool" where
  "target_kept fd a fd' b \<longleftrightarrow> same_target b a \<and> fd' = fd \<or> \<not> fd \<and> fd'"

definition effect :: "device \<Rightarrow> fstate \<Rightarrow> fstate \<Rightarrow> bool" where
  "effect dev f f' \<longleftrightarrow> frame f f' \<and> ret_kept f f' \<and> version_kept dev (f_out f) (f_out f') \<and>
     target_kept (target_found f) (f_out f) (target_found f') (f_out f')"

lemma kept_refl [simp]:
  "frame f f" "version_kept dev t t" "target_kept b t b t" "target_kept b t b (t\<lparr>tg_version := v\<rparr>)"
  "target_kept b t b (t\<lparr>tg_expires := e\<rparr>)" "version_kept dev t (t\<lparr>tg_expires := e\<rparr>)"
  "target_kept False t True t'"
  by (simp_all add: frame_def version_kept_def target_kept_def same_target_def)

lemma version_kept_upd:
  "d_targets dev = Some old \<Longrightarrow> \<not> v < tg_version old \<Longrightarrow> version_kept dev t (t\<lparr>tg_version := v\<rparr>)"
  by (simp add: version_kept_def)

lemma step_simple_effect:
  "effect dev f (step_begin f)" "effect dev f (step_top js f)" "effect dev f (step_before_signed pf f)"
  "effect dev f (step_ignored f)" "effect dev f (wait_for_value f)"
  by (simp_all add: effect_def frame_def ret_kept_def step_begin_def step_top_def step_before_signed_def step_ignored_def
      wait_for_value_def Let_def)

lemma step_signatures_effect:
  assumes "step_signatures pf dev js f = Some f'"
  shows "effect dev f f'"
proof (cases "t_end (token_pool f ! f_idx f) < 0")
  case True
  with assms show ?thesis by (auto simp: step_signatures_def effect_def frame_def ret_kept_def)
next
  case False
  with assms obtain res where
    r: "uptane_parse_signatures ROLE_TARGETS js (token_pool f) (f_idx f) (signature_pool_size pf) (d_root dev) = Some res"
    by (auto simp: step_signatures_def bind_eq_Some_conv)
  with False assms show ?thesis
    by (cases res) (auto simp: step_signatures_def effect_def frame_def ret_kept_def split: if_splits)
qed

lemma step_signed_frame:
  assumes "step_signed dev js f = Some f'"
  shows "frame f f' \<and> ret_kept f f' \<and> target_found f' = target_found f"
  using assms
  by (auto simp: step_signed_def wait_for_value_def Let_def frame_def ret_kept_def split: if_splits option.splits)

lemma step_signed_out:
  assumes "step_signed dev js f = Some f'"
  shows "version_kept dev (f_out f) (f_out f') \<and> target_kept (target_found f) (f_out f) (target_found f) (f_out f')"
  using assms
  by (auto simp: step_signed_def wait_for_value_def Let_def intro: version_kept_upd split: if_splits option.splits)

lemma step_targets_effect:
  assumes "step_targets pf dev js f = Some f'"
  shows "effect dev f f'"
proof (cases "t_type (token_pool f ! f_idx f) = JSMN_STRING \<and> f_idx f + 1 < toknext (parser f) \<and> 0 < t_end (token_pool f ! (f_idx f + 1))
    \<and> \<not> (0 \<le> t_end (token_pool f ! nat (targets_top_token_pos f)) \<and>
      t_size (token_pool f ! nat (targets_top_token_pos f)) \<le> targets_elems_read f)")
  case True
  with assms obtain tgt res i where p: "parse_target pf dev js (token_pool f) (f_idx f) (tmp_target f) = Some (tgt, res, i)"
    by (auto simp: step_targets_def Let_def bind_eq_Some_conv)
  define g where "g = take_target res (f\<lparr>tmp_target := tgt, f_idx := f_idx f + 1\<rparr>)"
  have g: "effect dev f g"
    by (cases res) (simp_all add: g_def take_target_def effect_def frame_def ret_kept_def version_kept_def)
  have "f' = g \<or> f' = g\<lparr>f_idx := i, targets_elems_read := targets_elems_read g + 1\<rparr>"
    using True assms p by (auto simp: step_targets_def Let_def g_def split: if_splits)
  with g show ?thesis by (auto simp: effect_def frame_def ret_kept_def)
next
  case False
  then have "f' = f\<lparr>signed_elems_read := signed_elems_read f + 1, state := TARGETS_IN_SIGNED\<rparr> \<or>
      f' = f\<lparr>state := TARGETS_IN_ERROR\<rparr> \<or>
      f' = f\<lparr>f_idx := f_idx f - 1, token_pool := tok_size_dec (token_pool f) (nat (targets_top_token_pos f)), f_break := True\<rparr>"
    using assms by (auto simp: step_targets_def Let_def split: if_splits)
  then show ?thesis by (elim disjE) (simp_all add: effect_def frame_def ret_kept_def)
qed

lemma feed_step_effect:
  assumes "feed_step pf dev js f = Some f'"
  shows "effect dev f f'"
proof (cases "state f")
  case TARGETS_IN_SIGNED
  with assms step_signed_frame [of dev js f f'] step_signed_out [of dev js f f'] show ?thesis
    by (simp add: feed_step_def effect_def)
next
  case TARGETS_IN_ERROR
  with assms show ?thesis by (auto simp: feed_step_def effect_def frame_def ret_kept_def)
qed (use assms step_simple_effect step_signatures_effect step_targets_effect in \<open>auto simp: feed_step_def\<close>)

text \<open>A property that every step keeps is kept by the loop.\<close>

locale loop_invariant =
  fixes pf :: platform and dev :: device and js :: string and I :: "fstate \<Rightarrow> bool"
  assumes step: "I f \<Longrightarrow> running f \<Longrightarrow> feed_step pf dev js f = Some f' \<Longrightarrow> I f'"
begin

lemma steps: "feed_steps n pf dev js f = Some f' \<Longrightarrow> I f \<Longrightarrow> I f'"
proof (induction n arbitrary: f)
  case (Suc n)
  show ?case
  proof (cases "running f")
    case True
    with Suc.prems(1) obtain g where "feed_step pf dev js f = Some g" "feed_steps n pf dev js g = Some f'"
      by (auto simp: bind_eq_Some_conv)
    with Suc.IH step Suc.prems(2) True show ?thesis by blast
  qed (use Suc.prems in simp)
qed simp

lemma loop:
  assumes "feed_loop pf dev js f = Some f'" and "return_ok f" and "I f"
  shows "I f'"
  using assms feed_loop_steps [OF assms(2) order_refl, of pf dev js] steps by metis

end

text \<open>The effect of a step composes, relative to the state at the start.\<close>

lemma version_kept_trans: "version_kept dev a b \<Longrightarrow> version_kept dev b c \<Longrightarrow> version_kept dev a c"
  by (auto simp: version_kept_def)

lemma target_kept_trans: "target_kept x a y b \<Longrightarrow> target_kept y b z c \<Longrightarrow> target_kept x a z c"
  by (auto simp: target_kept_def same_target_def)

lemma effect_trans:
  assumes "effect dev f g" and "running g" and "effect dev g h"
  shows "effect dev f h"
proof -
  have "frame f h" using assms by (simp add: effect_def frame_def)
  moreover have "ret_kept f h" using assms by (auto simp: effect_def ret_kept_def running_def)
  ultimately show ?thesis
    using assms version_kept_trans target_kept_trans unfolding effect_def by blast
qed

interpretation loop_effect: loop_invariant pf dev js "effect dev f0" for pf dev js f0
  by unfold_locales (rule effect_trans, assumption, assumption, rule feed_step_effect)

interpretation loop_return: loop_invariant pf dev js return_ok for pf dev js
  by unfold_locales (use feed_step_progress in \<open>auto simp: progress_def\<close>)

end
