(* ===== verification/Uptiny_Feed.thy ===== *)
theory Uptiny_Feed
  imports Uptiny_Targets
begin

text \<open>
  Facts about whole calls of \<open>uptane_parse_targets_feed\<close> and about sequences of calls: what an error does, what may
  happen to the version and the target, and when the signatures are checked.
\<close>

section \<open>One call\<close>

text \<open>The state in which the loop starts.\<close>

definition feed_start :: "tstate \<Rightarrow> uptane_targets \<Rightarrow> jsmn_parser \<Rightarrow> jsmntok list \<Rightarrow> fstate" where
  "feed_start s out p pool =
     tstate.extend (s\<lparr>parser := p, token_pool := pool\<rparr>) (fstate.fields out (token_pos s) False False None)"

lemma feed_start_fields [simp]:
  "state (feed_start s out p pool) = state s" "prev_state (feed_start s out p pool) = prev_state s"
  "f_out (feed_start s out p pool) = out" "f_ret (feed_start s out p pool) = None"
  "target_found (feed_start s out p pool) = target_found s" "end_signed (feed_start s out p pool) = end_signed s"
  "return_ok (feed_start s out p pool) = return_ok s"
  "num_signatures (feed_start s out p pool) = num_signatures s" "signature_pool (feed_start s out p pool) = signature_pool s"
  by (simp_all add: feed_start_def tstate.defs fstate.defs return_ok_def)

lemma truncate_fields [simp]:
  "state (tstate.truncate f) = state f" "prev_state (tstate.truncate f) = prev_state f"
  "target_found (tstate.truncate f) = target_found f" "end_signed (tstate.truncate f) = end_signed f"
  "ctx_sig (tstate.truncate f) = ctx_sig f" "ctx_data (tstate.truncate f) = ctx_data f"
  "num_signatures (tstate.truncate f) = num_signatures f" "return_ok (tstate.truncate f) = return_ok f"
  "signature_pool (tstate.truncate f) = signature_pool f"
  by (simp_all add: tstate.defs return_ok_def)

lemma verify_parts_fields:
  "f_out (verify_begin f) = f_out f" "target_found (verify_begin f) = target_found f" "state (verify_begin f) = state f"
  "num_signatures (verify_begin f) = num_signatures f" "signature_pool (verify_begin f) = signature_pool f"
  "prev_state (verify_begin f) = prev_state f" "f_ret (verify_begin f) = f_ret f" "end_signed (verify_begin f) = end_signed f"
  "f_out (verify_feed js e f) = f_out f" "target_found (verify_feed js e f) = target_found f" "state (verify_feed js e f) = state f"
  "num_signatures (verify_feed js e f) = num_signatures f" "signature_pool (verify_feed js e f) = signature_pool f"
  "prev_state (verify_feed js e f) = prev_state f" "f_ret (verify_feed js e f) = f_ret f" "end_signed (verify_feed js e f) = end_signed f"
  "f_out (verify_end pf dev f) = f_out f" "target_found (verify_end pf dev f) = target_found f"
  "num_signatures (verify_end pf dev f) = num_signatures f" "signature_pool (verify_end pf dev f) = signature_pool f"
  "prev_state (verify_end pf dev f) = prev_state f" "end_signed (verify_end pf dev f) = end_signed f"
  by (simp_all add: verify_begin_def verify_feed_def verify_end_def Let_def)

lemma feed_verify_fields [simp]:
  "f_out (feed_verify pf dev js f) = f_out f" "target_found (feed_verify pf dev js f) = target_found f"
  "num_signatures (feed_verify pf dev js f) = num_signatures f"
  "signature_pool (feed_verify pf dev js f) = signature_pool f"
  "prev_state (feed_verify pf dev js f) = prev_state f"
  by (simp_all add: feed_verify_def Let_def verify_parts_fields)

lemma verify_end_state:
  "state (verify_end pf dev f) = state f \<and> f_ret (verify_end pf dev f) = f_ret f
      \<and> targets_threshold (d_root dev) \<le> int (valid_contexts pf (verify_end pf dev f)) \<or>
   state (verify_end pf dev f) = TARGETS_IN_ERROR \<and> f_ret (verify_end pf dev f) = Some RESULT_SIGNATURES_FAILED"
  by (simp add: verify_end_def Let_def)

lemma feed_verify_state:
  "state (feed_verify pf dev js f) = state f \<and> f_ret (feed_verify pf dev js f) = f_ret f \<or>
   state (feed_verify pf dev js f) = TARGETS_IN_ERROR \<and> f_ret (feed_verify pf dev js f) = Some RESULT_SIGNATURES_FAILED"
  unfolding feed_verify_def Let_def
  using verify_end_state [of pf dev "verify_feed js True (verify_begin (f\<lparr>end_signed := t_end (token_pool f ! nat (signed_top_token_pos f))\<rparr>))"]
  by (auto simp: verify_parts_fields)

lemma feed_verify_checked:
  assumes "f_ret (feed_verify pf dev js f) = None" and "end_signed f < 0" and "0 \<le> end_signed (feed_verify pf dev js f)"
  shows "targets_threshold (d_root dev) \<le> int (valid_contexts pf (feed_verify pf dev js f))"
proof (cases "signed_ended f")
  case True
  then show ?thesis
    using assms(1) verify_end_state [of pf dev "verify_feed js True (verify_begin (f\<lparr>end_signed := t_end (token_pool f ! nat (signed_top_token_pos f))\<rparr>))"]
    by (auto simp: feed_verify_def Let_def)
next
  case False
  then have "end_signed (feed_verify pf dev js f) = end_signed f"
    by (simp add: feed_verify_def Let_def verify_parts_fields)
  with assms(2,3) show ?thesis by simp
qed

lemma feed_finish_cases:
  assumes "feed_finish pf dev js f = (s', out', r, res)" and "f_ret f = None \<or> state f = TARGETS_IN_ERROR"
  shows "out' = f_out f \<and> target_found s' = target_found f"
    and "r = -1 \<and> state s' = TARGETS_IN_ERROR \<or>
      0 \<le> r \<and> f_ret (feed_verify pf dev js f) = None \<and> state s' = state f \<and> prev_state s' = prev_state f \<and>
      state f \<noteq> TARGETS_IN_ERROR \<and> end_signed s' = end_signed (feed_verify pf dev js f) \<and>
      valid_contexts pf s' = valid_contexts pf (feed_verify pf dev js f)"
proof -
  let ?g = "feed_verify pf dev js f"
  consider (ret) "f_ret f \<noteq> None" | (err) "f_ret f = None" "state f = TARGETS_IN_ERROR"
    | (sig) "f_ret f = None" "state f \<noteq> TARGETS_IN_ERROR" "f_ret ?g \<noteq> None"
    | (ok) "f_ret f = None" "state f \<noteq> TARGETS_IN_ERROR" "f_ret ?g = None" by blast
  note C = this
  from C show "out' = f_out f \<and> target_found s' = target_found f"
    by cases (use assms(1) in \<open>auto simp: feed_finish_def Let_def\<close>)
  from C show "r = -1 \<and> state s' = TARGETS_IN_ERROR \<or>
      0 \<le> r \<and> f_ret ?g = None \<and> state s' = state f \<and> prev_state s' = prev_state f \<and>
      state f \<noteq> TARGETS_IN_ERROR \<and> end_signed s' = end_signed ?g \<and> valid_contexts pf s' = valid_contexts pf ?g"
  proof cases
    case ok
    then have "state ?g = state f" using feed_verify_state [of pf dev js f] by auto
    with ok assms(1) show ?thesis by (auto simp: feed_finish_def Let_def valid_contexts_def)
  next
    case sig
    then have "state ?g = TARGETS_IN_ERROR" using feed_verify_state [of pf dev js f] by auto
    with sig assms(1) show ?thesis by (auto simp: feed_finish_def Let_def)
  qed (use assms in \<open>auto simp: feed_finish_def\<close>)
qed

lemma feed_unfold:
  assumes "state s \<noteq> TARGETS_IN_ERROR"
  shows "uptane_parse_targets_feed pf dev js s out =
    Option.bind (prepare_primary_parser s) (\<lambda>p.
    Option.bind (jsmn_parse p js (token_pool s)) (\<lambda>(res, p, pool).
    Option.bind (feed_loop pf dev js (feed_start s out p pool)) (\<lambda>f. Some (feed_finish pf dev js f))))"
  unfolding uptane_parse_targets_feed_def feed_start_def using assms by (simp only: if_False)

text \<open>A call is the error sink, or a run of the loop and what follows it.\<close>

lemma feed_cases:
  assumes "uptane_parse_targets_feed pf dev js s out = Some (s', out', r, res)" and "return_ok s"
  obtains (sink) "state s = TARGETS_IN_ERROR" "s' = s" "out' = out" "r = -1" "res = RESULT_ERROR"
  | (loop) p pool f where "state s \<noteq> TARGETS_IN_ERROR" "effect dev (feed_start s out p pool) f" "return_ok f"
      "feed_loop pf dev js (feed_start s out p pool) = Some f" "feed_finish pf dev js f = (s', out', r, res)"
      "f_ret f = None \<or> state f = TARGETS_IN_ERROR"
proof (cases "state s = TARGETS_IN_ERROR")
  case True
  with assms(1) have "(s', out', r, res) = (s, out, -1, RESULT_ERROR)"
    unfolding uptane_parse_targets_feed_def by (simp only: if_True option.inject simp_thms)
  with True sink show ?thesis by simp
next
  case False
  with assms(1) obtain p pool f where
    l: "feed_loop pf dev js (feed_start s out p pool) = Some f" "feed_finish pf dev js f = (s', out', r, res)"
    unfolding feed_unfold [OF False] by (auto simp: bind_eq_Some_conv)
  have e: "effect dev (feed_start s out p pool) f"
    by (rule loop_effect.loop [OF l(1)]) (use assms(2) in \<open>simp_all add: effect_def ret_kept_def\<close>)
  have ro: "return_ok f" using loop_return.loop [OF l(1)] assms(2) by simp
  from e have ret: "f_ret f = None \<or> state f = TARGETS_IN_ERROR" by (simp add: effect_def ret_kept_def)
  show ?thesis by (rule loop [OF False e ro l ret])
qed

text \<open>Facts about a call.\<close>

lemma feed_error:
  assumes "uptane_parse_targets_feed pf dev js s out = Some (s', out', r, res)" and "return_ok s"
  shows "r < 0 \<longleftrightarrow> state s' = TARGETS_IN_ERROR" and "return_ok s'"
proof -
  have "(r < 0 \<longleftrightarrow> state s' = TARGETS_IN_ERROR) \<and> return_ok s'"
    using assms
  proof (cases rule: feed_cases)
    case sink
    then show ?thesis by (simp add: return_ok_def)
  next
    case (loop p pool f)
    from feed_finish_cases(2) [OF loop(5,6)] loop(3) show ?thesis by (auto simp: return_ok_def)
  qed
  then show "r < 0 \<longleftrightarrow> state s' = TARGETS_IN_ERROR" "return_ok s'" by auto
qed

lemma feed_kept:
  assumes "uptane_parse_targets_feed pf dev js s out = Some (s', out', r, res)" and "return_ok s"
  shows "version_kept dev out out'" and "target_kept (target_found s) out (target_found s') out'"
proof -
  have "version_kept dev out out' \<and> target_kept (target_found s) out (target_found s') out'"
    using assms
  proof (cases rule: feed_cases)
    case (loop p pool f)
    from feed_finish_cases(1) [OF loop(5,6)] loop(2) show ?thesis by (simp add: effect_def)
  qed simp
  then show "version_kept dev out out'" "target_kept (target_found s) out (target_found s') out'" by auto
qed

lemma feed_checked:
  assumes "uptane_parse_targets_feed pf dev js s out = Some (s', out', r, res)" and "return_ok s"
    and "0 \<le> r" "end_signed s < 0" "0 \<le> end_signed s'"
  shows "targets_threshold (d_root dev) \<le> int (valid_contexts pf s')"
  using assms(1,2)
proof (cases rule: feed_cases)
  case sink
  with assms show ?thesis by simp
next
  case (loop p pool f)
  have "end_signed f < 0" using loop(2) assms(4) by (simp add: effect_def frame_def)
  with feed_finish_cases(2) [OF loop(5,6)] assms(3,5) feed_verify_checked [of pf dev js f] show ?thesis by auto
qed

end
