(* ===== verification/Uptiny_Firmware.thy ===== *)
theory Uptiny_Firmware
  imports Uptiny_Targets
begin

text \<open>
  Verification of a firmware image (\<open>partial/libuptiny/firmware.c\<close>) and the version manifest
  (\<open>partial/libuptiny/manifest.c\<close>).
\<close>

section \<open>The platform\<close>

datatype uptane_attack = ATTACK_NONE | ATTACK_ROOT_THRESHOLD | ATTACK_TARGETS_THRESHOLD | ATTACK_ROOT_VERSION
  | ATTACK_TARGETS_VERSION | ATTACK_ROOT_EXPIRED | ATTACK_TARGETS_EXPIRED | ATTACK_ROOT_LARGE | ATTACK_TARGETS_LARGE
  | ATTACK_IMAGE_HASH | ATTACK_IMAGE_LARGE

record installation_state =
  firmware_name :: string
  firmware_hash :: crypto_hash
  firmware_length :: "32 word"
  attack :: uptane_attack

text \<open>
  What the platform provides beyond \<^typ>\<open>platform\<close>: \<open>crypto_hash_result\<close> on the concatenation of the data that
  was fed since \<open>crypto_hash_init\<close>, \<open>state_get_supported_hash\<close>, \<open>crypto_get_siglen\<close>, \<open>crypto_sign_data\<close> with the
  device's private key and the public key of \<open>state_get_device_key\<close>.
\<close>

record fw_platform =
  hash_result :: "byte list \<Rightarrow> byte list"
  get_hashlen :: "crypto_hash_algorithm \<Rightarrow> nat"
  get_supported_hash :: crypto_hash_algorithm
  get_siglen :: "crypto_algorithm \<Rightarrow> nat"
  sign_data :: "string \<Rightarrow> byte list"
  device_key :: crypto_key

text \<open>The global \<open>expected_hash\<close>, the hash context (the bytes fed to it) and the stored state.\<close>

record fw_state =
  expected_hash :: "crypto_hash option"
  hash_context :: "byte list"
  stored_targets :: "uptane_targets option"
  installed :: "installation_state option"

section \<open>Verification\<close>

text \<open>The loop over the hashes keeps the last one that matches.\<close>

definition find_expected :: "crypto_hash_algorithm \<Rightarrow> crypto_hash list \<Rightarrow> crypto_hash option" where
  "find_expected alg hs = fold (\<lambda>h acc. if hash_alg h = alg then Some h else acc) hs None"

definition memcmp_eq :: "nat \<Rightarrow> byte list \<Rightarrow> byte list \<Rightarrow> bool" where
  "memcmp_eq n a b \<longleftrightarrow> take n a = take n b"

definition uptane_verify_firmware_init :: "fw_platform \<Rightarrow> fw_state \<Rightarrow> bool \<times> fw_state" where
  "uptane_verify_firmware_init pf s =
     (case stored_targets s of
        None \<Rightarrow> (False, s)
      | Some targets \<Rightarrow>
          let alg = get_supported_hash pf;
              s = s\<lparr>expected_hash := find_expected alg (take (tg_hashes_num targets) (tg_hashes targets))\<rparr>
          in (case expected_hash s of
                None \<Rightarrow> (False, s)
              | Some h \<Rightarrow>
                  if (case installed s of
                        None \<Rightarrow> False
                      | Some inst \<Rightarrow> memcmp_eq (get_hashlen pf alg) (hash_bytes h) (hash_bytes (firmware_hash inst)))
                  then (False, s)
                  else (True, s\<lparr>hash_context := []\<rparr>)))"

definition uptane_verify_firmware_feed :: "byte list \<Rightarrow> fw_state \<Rightarrow> fw_state" where
  "uptane_verify_firmware_feed data s = s\<lparr>hash_context := hash_context s @ data\<rparr>"

text \<open>\<^const>\<open>None\<close>: \<open>expected_hash\<close> is \<open>NULL\<close> and is dereferenced.\<close>

definition uptane_verify_firmware_finalize :: "fw_platform \<Rightarrow> fw_state \<Rightarrow> bool option" where
  "uptane_verify_firmware_finalize pf s =
     (case expected_hash s of
        None \<Rightarrow> None
      | Some h \<Rightarrow> Some (memcmp_eq (get_hashlen pf (hash_alg h)) (hash_result pf (hash_context s)) (hash_bytes h)))"

text \<open>A C string in a buffer, and \<open>strncpy\<close> into a buffer of \<open>n\<close> characters, which fills up with zeros.\<close>

definition cstr :: "string \<Rightarrow> string" where
  "cstr s = takeWhile (\<lambda>c. c \<noteq> CHR 0x00) s"

definition strncpy :: "nat \<Rightarrow> string \<Rightarrow> string" where
  "strncpy n s = take n (cstr s @ replicate n (CHR 0x00))"

definition uptane_firmware_confirm :: "fw_state \<Rightarrow> fw_state option" where
  "uptane_firmware_confirm s =
     (case stored_targets s of
        None \<Rightarrow> Some s
      | Some targets \<Rightarrow>
          map_option (\<lambda>h. s\<lparr>installed := Some
              \<lparr>firmware_name = strncpy (TARGETS_MAX_NAME_LENGTH + 1) (tg_name targets), firmware_hash = h,
               firmware_length = of_nat (tg_length targets), attack = ATTACK_NONE\<rparr>\<rparr>)
            (expected_hash s))"

section \<open>The manifest\<close>

fun attack_to_string :: "uptane_attack \<Rightarrow> string" where
  "attack_to_string ATTACK_NONE = ''''"
| "attack_to_string ATTACK_ROOT_THRESHOLD = ''Failed threshold for root metadata''"
| "attack_to_string ATTACK_TARGETS_THRESHOLD = ''Failed threshold for targets metadata''"
| "attack_to_string ATTACK_ROOT_VERSION = ''Root rollback attempted''"
| "attack_to_string ATTACK_TARGETS_VERSION = ''Targets rollback attempted''"
| "attack_to_string ATTACK_ROOT_EXPIRED = ''Root metadata has expired''"
| "attack_to_string ATTACK_TARGETS_EXPIRED = ''Targets metadata has expired''"
| "attack_to_string ATTACK_ROOT_LARGE = ''Root metadata size exceeds the limit''"
| "attack_to_string ATTACK_TARGETS_LARGE = ''Targets metadata size exceeds the limit''"
| "attack_to_string ATTACK_IMAGE_HASH = ''Firmware image hash verification failed''"
| "attack_to_string ATTACK_IMAGE_LARGE = ''Firmware image length mismatch''"

fun hash_alg_to_string :: "crypto_hash_algorithm \<Rightarrow> string" where
  "hash_alg_to_string CRYPTO_HASH_SHA512 = ''sha512''"
| "hash_alg_to_string CRYPTO_HASH_UNKNOWN = ''Unknown''"

fun crypto_alg_to_method :: "crypto_algorithm \<Rightarrow> string" where
  "crypto_alg_to_method CRYPTO_ALG_ED25519 = ''ed25519''"
| "crypto_alg_to_method CRYPTO_ALG_UNKNOWN = ''Unknown''"

text \<open>A literal with the quotes of the C source, written as \<open>~\<close>.\<close>

definition quoted :: "string \<Rightarrow> string" where
  "quoted s = map (\<lambda>c. if c = CHR ''~'' then CHR 0x22 else c) s"

definition write_signed_part :: "fw_platform \<Rightarrow> string \<Rightarrow> installation_state option \<Rightarrow> string" where
  "write_signed_part pf ecuid st =
     quoted ''{~attacks_detected~:~'' @
     (case st of Some i \<Rightarrow> attack_to_string (attack i) | None \<Rightarrow> '''') @
     quoted ''~,~ecu_serial~:~'' @ ecuid @
     quoted ''~,~installed_image~:{~fileinfo~:{~hashes~:{~'' @
     (case st of Some i \<Rightarrow> hash_alg_to_string (hash_alg (firmware_hash i)) | None \<Rightarrow> ''nohash'') @
     quoted ''~:~'' @
     (case st of
        Some i \<Rightarrow> cstr (bin2hex (take (get_hashlen pf (hash_alg (firmware_hash i))) (hash_bytes (firmware_hash i))))
      | None \<Rightarrow> '''') @
     quoted ''~},~length~:'' @
     cstr (int2dec (case st of Some i \<Rightarrow> firmware_length i | None \<Rightarrow> 0)) @
     quoted ''},~filepath~:~'' @
     (case st of Some i \<Rightarrow> cstr (firmware_name i) | None \<Rightarrow> ''noimage'') @
     quoted ''~},~previous_timeserver_time~:~'' @ ''1970-01-01T00:00:00Z'' @
     quoted ''~,~timeserver_time~:~'' @ ''1970-01-01T00:00:00Z'' @ quoted ''~}''"

definition uptane_write_manifest :: "fw_platform \<Rightarrow> string \<Rightarrow> installation_state option \<Rightarrow> string \<times> string" where
  "uptane_write_manifest pf ecuid st =
     (let signed_part = write_signed_part pf ecuid st;
          sgb = sign_data pf signed_part;
          key = device_key pf
      in (signed_part,
          quoted ''[{~keyid~:~'' @ cstr (bin2hex (take CRYPTO_KEYID_LEN (k_id key))) @
          quoted ''~,~method~:~'' @ crypto_alg_to_method (k_type key) @
          quoted ''~,~sig~:~'' @ cstr (base64_encode (take (get_siglen pf (k_type key)) sgb)) @ quoted ''~}]''))"

section \<open>Facts\<close>

lemma find_expected_Some:
  assumes "find_expected alg hs = Some h"
  shows "h \<in> set hs \<and> hash_alg h = alg"
proof -
  have "fold (\<lambda>h acc. if hash_alg h = alg then Some h else acc) hs acc = Some h \<Longrightarrow>
      acc = Some h \<or> h \<in> set hs \<and> hash_alg h = alg" for acc
    by (induction hs arbitrary: acc) (auto split: if_splits)
  with assms show ?thesis by (auto simp: find_expected_def)
qed

lemma fold_feed_context:
  "hash_context (fold uptane_verify_firmware_feed chunks s) = hash_context s @ concat chunks"
  "expected_hash (fold uptane_verify_firmware_feed chunks s) = expected_hash s"
  "stored_targets (fold uptane_verify_firmware_feed chunks s) = stored_targets s"
  "installed (fold uptane_verify_firmware_feed chunks s) = installed s"
  by (induction chunks arbitrary: s) (simp_all add: uptane_verify_firmware_feed_def)

lemma init_True:
  assumes "uptane_verify_firmware_init pf s = (True, s')"
  shows "\<exists>targets h. stored_targets s = Some targets \<and> expected_hash s' = Some h \<and> hash_context s' = [] \<and>
    h \<in> set (take (tg_hashes_num targets) (tg_hashes targets)) \<and> hash_alg h = get_supported_hash pf \<and>
    stored_targets s' = stored_targets s \<and> installed s' = installed s \<and>
    (\<forall>inst. installed s = Some inst \<longrightarrow>
       \<not> memcmp_eq (get_hashlen pf (hash_alg h)) (hash_bytes h) (hash_bytes (firmware_hash inst)))"
  using assms find_expected_Some
  by (fastforce simp: uptane_verify_firmware_init_def Let_def split: option.splits if_splits)

lemma cstr_digits: "\<forall>c \<in> set s. c \<noteq> CHR 0x00 \<Longrightarrow> cstr (s @ CHR 0x00 # t) = s"
  by (simp add: cstr_def takeWhile_append2)

lemma is_hex_not_nul: "is_hex c \<Longrightarrow> c \<noteq> CHR 0x00"
  by (auto simp: is_hex_def)

lemma cstr_bin2hex: "cstr (bin2hex bs) = hex_digits bs"
  using hex_digits_is_hex [of bs] is_hex_not_nul by (auto simp: bin2hex_digits intro!: cstr_digits)

lemma is_digit_not_nul: "is_digit c \<Longrightarrow> c \<noteq> CHR 0x00"
  by (auto simp: is_digit_def)

lemma cstr_int2dec:
  assumes "num \<noteq> - (2 ^ 31)"
  shows "int2dec num = cstr (int2dec num) @ [CHR 0x00]"
proof -
  from int2dec_text [OF assms] obtain ds where
    d: "\<forall>c \<in> set ds. is_digit c" "int2dec num = ((if sint num < 0 then ''-'' else '''') @ ds) @ CHR 0x00 # []" by auto
  have "cstr (int2dec num) = (if sint num < 0 then ''-'' else '''') @ ds"
    unfolding d(2) by (rule cstr_digits) (use d(1) is_digit_not_nul in auto)
  with d(2) show ?thesis by simp
qed

lemma encode_6bit_not_nul: "s < 64 \<Longrightarrow> encode_6bit s \<noteq> CHR 0x00"
  using encode_6bit_code [of "unat s"] by (auto simp: word_less_nat_alt split: if_splits)

lemma encode_triple_not_nul: "CHR 0x00 \<notin> set (encode_triple msg padding)"
proof -
  have "CHR 0x00 \<noteq> encode_6bit (0x3F AND b)" "CHR 0x00 \<noteq> encode_6bit (drop_bit 2 b)" for b
    using encode_6bit_not_nul [OF sextet_less(1)] encode_6bit_not_nul [OF sextet_less(2)] by metis+
  then show ?thesis unfolding encode_triple_def by auto
qed

lemma cstr_append: "CHR 0x00 \<notin> set s \<Longrightarrow> cstr (s @ t) = s @ cstr t"
  by (auto simp: cstr_def takeWhile_append)

lemma cstr_base64_encode: "base64_encode msg = cstr (base64_encode msg) @ [CHR 0x00]"
proof (induction msg rule: base64_encode.induct)
  case (1 msg)
  show ?case
  proof (cases "msg = []")
    case True
    then show ?thesis by (simp add: base64_encode.simps cstr_def)
  next
    case False
    let ?t = "encode_triple msg (if length msg = 1 then 2 else if length msg = 2 then 1 else 0)"
    have e: "base64_encode msg = ?t @ base64_encode (drop 3 msg)" using False by (subst base64_encode.simps) simp
    show ?thesis unfolding e cstr_append [OF encode_triple_not_nul] using 1 [OF False] by simp
  qed
qed

text \<open>The numbers below \<open>2^31\<close> keep their value as signed numbers.\<close>

lemma sint_small:
  assumes "num < (2 ^ 31 :: 32 word)"
  shows "sint num = int (unat num)" and "num \<noteq> - (2 ^ 31)"
proof -
  have u: "unat num < 2 ^ 31" using assms by (simp add: word_less_nat_alt)
  have "sint (word_of_int (int (unat num)) :: 32 word) = signed_take_bit (LENGTH(32) - 1) (int (unat num))"
    by (rule sint_sbintrunc')
  also have "\<dots> = int (unat num)"
  proof -
    have "signed_take_bit (LENGTH(32) - 1) (int m) = int m" if "m < 2 ^ 31" for m
      using that by (intro signed_take_bit_int_eq_self) auto
    with u show ?thesis by blast
  qed
  finally show "sint num = int (unat num)" by simp
  show "num \<noteq> - (2 ^ 31)" using assms by (auto simp: word_less_nat_alt)
qed

lemma dec2int_text:
  assumes "num < (2 ^ 31 :: 32 word)"
  shows "dec2int (cstr (int2dec num)) (length (cstr (int2dec num))) = Some (int (unat num))"
proof -
  note c = cstr_int2dec [OF sint_small(2) [OF assms]]
  have ne: "cstr (int2dec num) \<noteq> []"
  proof
    assume "cstr (int2dec num) = []"
    with c int2dec_text [OF sint_small(2) [OF assms]] show False by auto
  qed
  have "dec2int (int2dec num) (length (int2dec num) - 1) = Some (sint num)"
    by (rule dec2int_int2dec_lemma [OF sint_small(2) [OF assms]])
  then have "dec2int (cstr (int2dec num) @ [CHR 0x00]) (length (cstr (int2dec num))) = Some (sint num)"
    by (metis c length_append_singleton diff_Suc_1)
  with ne show ?thesis by (simp add: dec2int_def sint_small(1) [OF assms])
qed

end
