(* ===== verification/Uptiny_Samples.thy ===== *)
theory Uptiny_Samples
  imports Uptiny_Feed Uptiny_Firmware
begin

text \<open>
  Concrete inputs of the partial-verification client, for the statements that need one: a platform whose
  signatures are valid for one text, a device with one key, and short metadata.  In the texts \<open>~\<close> stands for a quote.
\<close>

definition sample_key :: crypto_key where
  "sample_key = \<lparr>k_type = CRYPTO_ALG_ED25519, k_id = replicate 32 0, k_val = replicate 32 0\<rparr>"

definition sample_time :: uptane_time where
  "sample_time = \<lparr>year = 2020, month = 1, day = 1, hour = 0, minute = 0, second = 0\<rparr>"

definition tiny_root :: uptane_root where
  "tiny_root = \<lparr>r_version = 1, r_expires = sample_time, root_threshold = 1, root_keys = [sample_key],
     targets_threshold = 1, targets_keys = [sample_key]\<rparr>"

definition tiny_targets :: uptane_targets where
  "tiny_targets = \<lparr>tg_version = 0, tg_expires = sample_time, tg_name = replicate 64 (CHR 0x00), tg_hashes_num = 0,
     tg_hashes = replicate 2 \<lparr>hash_alg = CRYPTO_HASH_UNKNOWN, hash_bytes = replicate 64 0\<rparr>, tg_length = 0\<rparr>"

definition tiny_device :: device where
  "tiny_device = \<lparr>d_root = tiny_root, d_targets = Some tiny_targets, d_ecuid = ''E'', d_hwid = ''H''\<rparr>"

text \<open>Signatures are valid for the text \<open>txt\<close> and for no other.\<close>

definition tiny_platform :: "string \<Rightarrow> platform" where
  "tiny_platform txt = \<lparr>verify = (\<lambda>s d. d = txt),
     crypto_str_to_keytype = (\<lambda>s. if s = ''ed25519'' then CRYPTO_ALG_ED25519 else CRYPTO_ALG_UNKNOWN),
     crypto_str_to_hashtype = (\<lambda>s. if s = ''sha512'' then CRYPTO_HASH_SHA512 else CRYPTO_HASH_UNKNOWN),
     crypto_get_hashlen = (\<lambda>a. 64), alloc_crypto_key = (\<lambda>n. Some sample_key), signature_pool_size = 2, crypto_ctx_pool_size = 2\<rparr>"

definition sample_token :: jsmntok where
  "sample_token = \<lparr>t_type = JSMN_UNDEFINED, t_start = 0, t_end = 0, t_size = 0, t_parent = 0\<rparr>"

definition sample_pool :: "jsmntok list" where
  "sample_pool = replicate 40 sample_token"

definition tiny_state :: tstate where
  "tiny_state = uptane_parse_targets_init
     \<lparr>parser = jsmn_init, token_pos = 0, ignored_top_token_pos = 0, signed_top_token_pos = 0, targets_top_token_pos = 0,
      state = TARGETS_BEGIN, prev_state = TARGETS_BEGIN, target_found = False, signed_elems_read = 0, targets_elems_read = 0,
      num_signatures = 0, begin_signed = 0, end_signed = 0, in_signed = False, tail_length = 0, tmp_target = tiny_targets,
      token_pool = sample_pool, signature_pool = replicate 2 \<lparr>s_key = sample_key, s_sig = []\<rparr>,
      ctx_sig = replicate 2 \<lparr>s_key = sample_key, s_sig = []\<rparr>, ctx_data = replicate 2 []\<rparr>"

definition sample_sig :: string where
  "sample_sig = quoted ''{~keyid~:~'' @ replicate 64 (CHR ''0'') @ quoted ''~,~sig~:~'' @ replicate 86 (CHR ''A'') @ quoted ''==~}''"

definition signed_metadata :: "string list \<Rightarrow> string \<Rightarrow> string" where
  "signed_metadata sigs body =
     quoted ''{~signatures~:['' @ concat sigs @ quoted ''],~signed~:'' @ body @ ''}''"

definition tiny_signed :: string where
  "tiny_signed = quoted ''{~targets~:{~f~:{~custom~:{~ecuIdentifiers~:{~E~:{}}},~length~:5}},~version~:1}''"

lemma sample_feed:
  "case uptane_parse_targets_feed (tiny_platform tiny_signed) tiny_device (signed_metadata [sample_sig] tiny_signed) tiny_state tiny_targets of
     None \<Rightarrow> False
   | Some (s', out', r, res) \<Rightarrow> 0 \<le> r \<and> 0 \<le> end_signed s' \<and> target_found s' \<and> tg_version out' = 1 \<and> tg_length out' = 5 \<and> res = RESULT_END_FOUND"
  by code_simp

definition tiny_root_signed :: string where
  "tiny_root_signed = quoted ''{~_type~:~Root~,~version~:2}''"

lemma sample_parse_root:
  "map_option (\<lambda>(ok, st, rt). (ok, r_version rt)) (uptane_parse_root (tiny_platform tiny_root_signed) tiny_root
     (signed_metadata [sample_sig] tiny_root_signed) sample_pool \<lparr>parsed_keys = [], allocs = 0\<rparr> tiny_root) = Some (True, 2)"
  by code_simp

definition unsigned_part :: string where
  "unsigned_part = quoted '',~signed~:{~targets~:{~evil~:{~custom~:{~ecuIdentifiers~:{~E~:{}}}}},~a~:1}}''"

definition signed_stub :: string where
  "signed_stub = quoted ''{~_type~:~Targets~}''"

definition tiny_fw :: fw_platform where
  "tiny_fw = \<lparr>hash_result = (\<lambda>d. replicate 64 (of_nat (length d))), get_hashlen = (\<lambda>a. 64), get_supported_hash = CRYPTO_HASH_SHA512,
     get_siglen = (\<lambda>a. 64), sign_data = (\<lambda>d. replicate 64 0), device_key = sample_key\<rparr>"

definition fw_targets :: uptane_targets where
  "fw_targets = tiny_targets\<lparr>tg_hashes_num := 1, tg_hashes := [\<lparr>hash_alg = CRYPTO_HASH_SHA512, hash_bytes = replicate 64 3\<rparr>], tg_length := 3\<rparr>"

definition fw_start :: fw_state where
  "fw_start = \<lparr>expected_hash = None, hash_context = [], stored_targets = Some fw_targets, installed = None\<rparr>"

end
