(* ===== verification/Uptiny_Properties.thy ===== *)
theory Uptiny_Properties
  imports Uptiny_Samples
begin

text \<open>The properties of the partial-verification client.\<close>

section \<open>Tokens and text conversions\<close>


lemma small_parse: "map_option fst (jsmn_parse jsmn_init (quoted ''{~a~:[1]}'') (replicate 5 sample_token)) = Some (Inr 4)"
  by code_simp


text \<open>
  C20.  Skipping an object or an array of an accepted text skips the tokens inside of it and no other token.
\<close>

theorem skip_token_spec:
  assumes "jsmn_parse jsmn_init js tokens0 = Some (Inr n, p, tokens)" and "idx < n"
    and "t_type (tokens ! idx) \<in> {JSMN_OBJECT, JSMN_ARRAY}"
  shows "idx < consume_recursive_json tokens idx \<and>
    (\<forall>j. idx < j \<and> j < n \<longrightarrow>
       (j < consume_recursive_json tokens idx \<longleftrightarrow>
        t_start (tokens ! j) < t_end (tokens ! idx) \<and> t_end (tokens ! j) \<le> t_end (tokens ! idx)))"
proof -
  have "tokens_wf (length js) n tokens" using jsmn_parse_total [of js tokens0] assms(1) by auto
  from consume_recursive_json_spec [OF this assms(2,3)] show ?thesis by auto
qed

theorem skip_token_spec_witness:
  "\<exists>p tokens. jsmn_parse jsmn_init (quoted ''{~a~:[1]}'') (replicate 5 sample_token) = Some (Inr 4, p, tokens) \<and>
     2 < consume_recursive_json tokens 2"
proof -
  have c: "map_option (\<lambda>(r, p, tokens). (r, t_type (tokens ! 2)))
      (jsmn_parse jsmn_init (quoted ''{~a~:[1]}'') (replicate 5 sample_token)) = Some (Inr 4, JSMN_ARRAY)"
    by code_simp
  then obtain p tokens where
    t: "jsmn_parse jsmn_init (quoted ''{~a~:[1]}'') (replicate 5 sample_token) = Some (Inr 4, p, tokens)"
    "t_type (tokens ! 2) = JSMN_ARRAY"
    by (cases "jsmn_parse jsmn_init (quoted ''{~a~:[1]}'') (replicate 5 sample_token)") auto
  from skip_token_spec [OF t(1), of 2] t show ?thesis by auto
qed

text \<open>C21.  Decoding the base64 text of a message gives the message, in a buffer of whole triples.\<close>

theorem base64_round_trip:
  assumes "3 * ((length msg + 2) div 3) \<le> length buf"
  shows "\<exists>rest. base64_decode (base64_encode msg) (length (base64_encode msg) - 1) buf = Some (int (length msg), msg @ rest) \<and>
    length (msg @ rest) = length buf"
  using base64_decode_encode [OF assms, of "[]"] by (simp add: base64_decode_def)

theorem base64_round_trip_witness:
  "\<exists>rest. base64_decode (base64_encode [1, 2, 3, 255]) (length (base64_encode [1, 2, 3, 255]) - 1) (replicate 6 0) =
     Some (4, [1, 2, 3, 255] @ rest)"
  using base64_round_trip [of "[1, 2, 3, 255]" "replicate 6 0"] by auto



text \<open>
  C23.  A key is found by its hexadecimal id and by no other text: the id that \<open>bin2hex\<close> writes finds a key with
  this id, and a key that is found has the id that the text denotes.
\<close>

theorem find_key_spec:
  assumes "\<forall>k \<in> set keys. length (k_id k) = CRYPTO_KEYID_LEN"
  shows "(\<forall>k \<in> set keys. \<exists>k'. find_key (cstr (bin2hex (k_id k))) keys = Some k' \<and> k_id k' = k_id k) \<and>
    (\<forall>tx k. find_key tx keys = Some k \<longrightarrow> k \<in> set keys \<and> (\<forall>c \<in> set tx. is_hex c) \<and> k_id k = hex_value tx)"
  using find_key_complete [OF _ assms] find_key_Some [OF _ assms] by (simp add: cstr_bin2hex)

theorem find_key_spec_witness:
  "\<exists>k'. find_key (cstr (bin2hex (replicate 32 0))) [sample_key] = Some k' \<and> k_id k' = replicate 32 0"
  using find_key_spec [of "[sample_key]"] by (simp add: sample_key_def CRYPTO_KEYID_LEN_def)

text \<open>C24.  Reading the decimal text of a 32-bit number gives the number, for all numbers but the smallest.\<close>

theorem decimal_round_trip:
  assumes "num \<noteq> - (2 ^ 31)"
  shows "dec2int (int2dec num) (length (int2dec num) - 1) = Some (sint num)"
  by (rule dec2int_int2dec_lemma [OF assms])

theorem decimal_round_trip_witness: "dec2int (int2dec (- 120)) (length (int2dec (- 120)) - 1) = Some (- 120)"
  using decimal_round_trip [of "- 120"] by simp



section \<open>Root metadata\<close>



section \<open>Targets metadata\<close>

text \<open>
  C27.  The loop of a call of the targets parser ends: it takes at most four steps for each token that is left and
  four more, and then it has stopped or a step has accessed memory outside of an object.
\<close>

theorem feed_loop_terminates:
  assumes "return_ok f" and "4 * (toknext (parser f) - f_idx f) + 4 \<le> n"
  shows "feed_loop pf dev message f = feed_steps n pf dev message f \<and>
    (\<forall>f'. feed_steps n pf dev message f = Some f' \<longrightarrow> \<not> running f')"
proof -
  obtain m where n: "n = Suc m" using assms(2) by (cases n) auto
  have "work_left f \<le> m"
    using assms(2) by (auto simp: n work_left_def state_rank_def split: parsing_state.split)
  from feed_loop_steps [OF assms(1) this] show ?thesis unfolding n .
qed

theorem feed_loop_terminates_witness:
  "feed_loop (tiny_platform []) tiny_device [] (feed_start tiny_state tiny_targets jsmn_init sample_pool) =
   feed_steps 4 (tiny_platform []) tiny_device [] (feed_start tiny_state tiny_targets jsmn_init sample_pool)"
  using feed_loop_terminates [of "feed_start tiny_state tiny_targets jsmn_init sample_pool" 4 "tiny_platform []" tiny_device "[]"]
  by (simp add: feed_start_def tstate.defs fstate.defs tiny_state_def uptane_parse_targets_init_def return_ok_def jsmn_init_def)


lemma sample_feed_obtain:
  obtains s' out' r res where
    "uptane_parse_targets_feed (tiny_platform tiny_signed) tiny_device (signed_metadata [sample_sig] tiny_signed)
       tiny_state tiny_targets = Some (s', out', r, res)"
    "0 \<le> r" "0 \<le> end_signed s'" "target_found s'" "tg_version out' = 1" "tg_length out' = 5" "res = RESULT_END_FOUND"
  using sample_feed by (auto split: option.splits)

lemma tiny_state_fields: "return_ok tiny_state" "end_signed tiny_state < 0" "\<not> target_found tiny_state" "state tiny_state = TARGETS_BEGIN"
  by (simp_all add: tiny_state_def uptane_parse_targets_init_def return_ok_def)


text \<open>
  C29.  A call never fills in a version below the version of the stored targets: it leaves the version as it was, or
  writes one that is at least as high.
\<close>

theorem feed_no_version_rollback:
  assumes "uptane_parse_targets_feed pf dev message s out = Some (s', out', r, res)" and "return_ok s"
    and "d_targets dev = Some old"
  shows "tg_version out' = tg_version out \<or> tg_version old \<le> tg_version out'"
  using feed_kept(1) [OF assms(1,2)] assms(3) by (auto simp: version_kept_def)

theorem feed_no_version_rollback_witness:
  "\<exists>s' out' r res. uptane_parse_targets_feed (tiny_platform tiny_signed) tiny_device (signed_metadata [sample_sig] tiny_signed)
     tiny_state tiny_targets = Some (s', out', r, res) \<and> tg_version out' = 1 \<and> tg_version tiny_targets \<le> tg_version out'"
proof -
  obtain s' out' r res where
    f: "uptane_parse_targets_feed (tiny_platform tiny_signed) tiny_device (signed_metadata [sample_sig] tiny_signed)
       tiny_state tiny_targets = Some (s', out', r, res)" "tg_version out' = 1" by (rule sample_feed_obtain)
  from feed_no_version_rollback [OF f(1) tiny_state_fields(1), of tiny_targets] f show ?thesis
    by (auto simp: tiny_device_def tiny_targets_def)
qed

text \<open>
  C30.  The target for this device is filled in at most once: a call that starts with a target already found leaves
  the name, the hashes and the length as they are, and a call that changes them has found the target.
\<close>

theorem feed_single_target:
  assumes "uptane_parse_targets_feed pf dev message s out = Some (s', out', r, res)" and "return_ok s"
  shows "(target_found s \<longrightarrow> target_found s' \<and> same_target out' out) \<and>
    (\<not> same_target out' out \<longrightarrow> \<not> target_found s \<and> target_found s')"
  using feed_kept(2) [OF assms] by (auto simp: target_kept_def)

theorem feed_single_target_witness:
  "\<exists>s' out' r res. uptane_parse_targets_feed (tiny_platform tiny_signed) tiny_device (signed_metadata [sample_sig] tiny_signed)
     tiny_state tiny_targets = Some (s', out', r, res) \<and> tg_length out' = 5 \<and> target_found s'"
proof -
  obtain s' out' r res where
    f: "uptane_parse_targets_feed (tiny_platform tiny_signed) tiny_device (signed_metadata [sample_sig] tiny_signed)
       tiny_state tiny_targets = Some (s', out', r, res)" "tg_length out' = 5" by (rule sample_feed_obtain)
  from feed_single_target [OF f(1) tiny_state_fields(1)] f show ?thesis
    by (auto simp: same_target_def tiny_targets_def)
qed

text \<open>
  C31.  The call in which the first signed object ends succeeds only when at least as many signatures as the
  threshold of the targets role are valid for the data that was fed to the verification.
\<close>

theorem feed_checks_signatures:
  assumes "uptane_parse_targets_feed pf dev message s out = Some (s', out', r, res)" and "return_ok s"
    and "0 \<le> r" and "end_signed s < 0" and "0 \<le> end_signed s'"
  shows "targets_threshold (d_root dev) \<le> int (valid_contexts pf s')"
  by (rule feed_checked [OF assms])

theorem feed_checks_signatures_witness:
  "\<exists>s' out' r res. uptane_parse_targets_feed (tiny_platform tiny_signed) tiny_device (signed_metadata [sample_sig] tiny_signed)
     tiny_state tiny_targets = Some (s', out', r, res) \<and> 1 \<le> valid_contexts (tiny_platform tiny_signed) s'"
proof -
  obtain s' out' r res where
    f: "uptane_parse_targets_feed (tiny_platform tiny_signed) tiny_device (signed_metadata [sample_sig] tiny_signed)
       tiny_state tiny_targets = Some (s', out', r, res)" "0 \<le> r" "0 \<le> end_signed s'" by (rule sample_feed_obtain)
  from feed_checks_signatures [OF f(1) tiny_state_fields(1) f(2) tiny_state_fields(2) f(3)] f show ?thesis
    by (auto simp: tiny_device_def tiny_root_def)
qed

section \<open>Firmware and manifest\<close>

text \<open>
  C32.  When the verification of an image is started and then confirmed, the image that was fed in any number of
  parts has the hash that the stored targets give for the supported algorithm, and this hash is not that of the
  installed image.  Confirming the image records this hash and the length of the target.
\<close>

theorem firmware_verified:
  assumes "uptane_verify_firmware_init pf s = (True, s1)"
    and "uptane_verify_firmware_finalize pf (fold uptane_verify_firmware_feed chunks s1) = Some True"
  shows "\<exists>targets h s2 inst. stored_targets s = Some targets \<and> h \<in> set (take (tg_hashes_num targets) (tg_hashes targets)) \<and>
    hash_alg h = get_supported_hash pf \<and>
    memcmp_eq (get_hashlen pf (hash_alg h)) (hash_result pf (concat chunks)) (hash_bytes h) \<and>
    (\<forall>old. installed s = Some old \<longrightarrow>
       \<not> memcmp_eq (get_hashlen pf (hash_alg h)) (hash_bytes h) (hash_bytes (firmware_hash old))) \<and>
    uptane_firmware_confirm (fold uptane_verify_firmware_feed chunks s1) = Some s2 \<and> installed s2 = Some inst \<and>
    firmware_hash inst = h \<and> firmware_length inst = of_nat (tg_length targets) \<and> attack inst = ATTACK_NONE"
proof -
  from init_True [OF assms(1)] obtain targets h where
    i: "stored_targets s = Some targets" "expected_hash s1 = Some h" "hash_context s1 = []"
      "h \<in> set (take (tg_hashes_num targets) (tg_hashes targets))" "hash_alg h = get_supported_hash pf"
      "stored_targets s1 = stored_targets s"
      "\<forall>old. installed s = Some old \<longrightarrow> \<not> memcmp_eq (get_hashlen pf (hash_alg h)) (hash_bytes h) (hash_bytes (firmware_hash old))"
    by auto
  from assms(2) i(2,3) have "memcmp_eq (get_hashlen pf (hash_alg h)) (hash_result pf (concat chunks)) (hash_bytes h)"
    by (simp add: uptane_verify_firmware_finalize_def fold_feed_context)
  moreover have "\<exists>s2 inst. uptane_firmware_confirm (fold uptane_verify_firmware_feed chunks s1) = Some s2 \<and>
      installed s2 = Some inst \<and> firmware_hash inst = h \<and> firmware_length inst = of_nat (tg_length targets) \<and> attack inst = ATTACK_NONE"
    using i(1,2,6) by (simp add: uptane_firmware_confirm_def fold_feed_context)
  ultimately show ?thesis using i by metis
qed

theorem firmware_verified_witness:
  "\<exists>s2 inst. uptane_firmware_confirm (fold uptane_verify_firmware_feed [[1, 2], [3]] (snd (uptane_verify_firmware_init tiny_fw fw_start))) = Some s2 \<and>
     installed s2 = Some inst \<and> firmware_length inst = 3"
proof -
  have i: "uptane_verify_firmware_init tiny_fw fw_start = (True, snd (uptane_verify_firmware_init tiny_fw fw_start))"
    by (simp add: uptane_verify_firmware_init_def tiny_fw_def fw_start_def fw_targets_def find_expected_def)
  have f: "uptane_verify_firmware_finalize tiny_fw (fold uptane_verify_firmware_feed [[1, 2], [3]] (snd (uptane_verify_firmware_init tiny_fw fw_start))) = Some True"
    by (simp add: uptane_verify_firmware_finalize_def uptane_verify_firmware_feed_def uptane_verify_firmware_init_def
        tiny_fw_def fw_start_def fw_targets_def find_expected_def memcmp_eq_def)
  from firmware_verified [OF i f] show ?thesis by (auto simp: fw_start_def fw_targets_def)
qed

text \<open>
  C33.  The manifest of an image shorter than \<open>2^31\<close> bytes states its length: the signed part consists of a part
  before the length, the field name, the decimal text of the length, the name of the installed file and a part behind it.  The signature part holds the id of the
  device key, by which the key is found, and a base64 text that decodes to the signature of the signed part.
\<close>

theorem manifest_fields:
  assumes "firmware_length inst < 2 ^ 31" and "length (k_id (device_key pf)) = CRYPTO_KEYID_LEN"
    and "\<forall>d. length (sign_data pf d) = get_siglen pf (k_type (device_key pf))"
    and "uptane_write_manifest pf ecuid (Some inst) = (signed_part, signatures_part)"
  shows "\<exists>before len after kid mid b64 rest.
    signed_part = before @ quoted ''~},~length~:'' @ len @ quoted ''},~filepath~:~'' @ cstr (firmware_name inst) @ after \<and>
    dec2int len (length len) = Some (int (unat (firmware_length inst))) \<and>
    signatures_part = quoted ''[{~keyid~:~'' @ kid @ quoted ''~,~method~:~'' @ mid @ quoted ''~,~sig~:~'' @ b64 @ quoted ''~}]'' \<and>
    find_key kid [device_key pf] = Some (device_key pf) \<and>
    base64_decode (b64 @ [CHR 0x00]) (length b64) (replicate (3 * ((get_siglen pf (k_type (device_key pf)) + 2) div 3)) 0) =
      Some (int (get_siglen pf (k_type (device_key pf))), sign_data pf signed_part @ rest)"
proof -
  let ?key = "device_key pf" and ?sig = "sign_data pf signed_part"
  let ?n = "get_siglen pf (k_type ?key)" and ?len = "cstr (int2dec (firmware_length inst))"
  let ?kid = "hex_digits (k_id ?key)" and ?b64 = "cstr (base64_encode ?sig)"
  from assms(4) have sp: "signed_part = write_signed_part pf ecuid (Some inst)"
    by (simp add: uptane_write_manifest_def Let_def)
  obtain before after where
    p: "signed_part = before @ quoted ''~},~length~:'' @ ?len @ quoted ''},~filepath~:~'' @ cstr (firmware_name inst) @ after"
    unfolding sp write_signed_part_def option.case by (metis append.assoc)
  have t: "take CRYPTO_KEYID_LEN (k_id ?key) = k_id ?key" "take ?n ?sig = ?sig"
    using assms(2,3) by simp_all
  have q: "signatures_part = quoted ''[{~keyid~:~'' @ ?kid @ quoted ''~,~method~:~'' @ crypto_alg_to_method (k_type ?key) @
      quoted ''~,~sig~:~'' @ ?b64 @ quoted ''~}]''"
    using assms(4) sp t by (simp add: uptane_write_manifest_def Let_def cstr_bin2hex)
  have k: "find_key ?kid [?key] = Some ?key"
    using find_key_complete [of ?key "[?key]"] find_key_mem [of ?kid "[?key]"] assms(2) by auto
  from base64_decode_encode [of ?sig "replicate (3 * ((?n + 2) div 3)) 0" "[]"] assms(3) obtain rest where
    "base64_decode (base64_encode ?sig) (length (base64_encode ?sig) - 1) (replicate (3 * ((?n + 2) div 3)) 0) = Some (int ?n, ?sig @ rest)"
    by (auto simp: base64_decode_def)
  then have "base64_decode (?b64 @ [CHR 0x00]) (length ?b64) (replicate (3 * ((?n + 2) div 3)) 0) = Some (int ?n, ?sig @ rest)"
    using cstr_base64_encode [of ?sig] by (metis length_append_singleton diff_Suc_1)
  with p q k dec2int_text [OF assms(1)] show ?thesis by blast
qed

theorem manifest_fields_witness:
  "\<exists>before len after. fst (uptane_write_manifest tiny_fw ''E'' (Some \<lparr>firmware_name = ''f'', firmware_hash = \<lparr>hash_alg = CRYPTO_HASH_SHA512, hash_bytes = []\<rparr>,
     firmware_length = 120, attack = ATTACK_NONE\<rparr>)) =
     before @ quoted ''~},~length~:'' @ len @ quoted ''},~filepath~:~'' @ cstr ''f'' @ after \<and> dec2int len (length len) = Some 120"
proof -
  let ?i = "\<lparr>firmware_name = ''f'', firmware_hash = \<lparr>hash_alg = CRYPTO_HASH_SHA512, hash_bytes = []\<rparr>, firmware_length = 120, attack = ATTACK_NONE\<rparr>"
  have "firmware_length ?i < 2 ^ 31" "length (k_id (device_key tiny_fw)) = CRYPTO_KEYID_LEN"
    "\<forall>d. length (sign_data tiny_fw d) = get_siglen tiny_fw (k_type (device_key tiny_fw))"
    by (simp_all add: tiny_fw_def sample_key_def CRYPTO_KEYID_LEN_def)
  from manifest_fields [OF this, of "''E''" "fst (uptane_write_manifest tiny_fw ''E'' (Some ?i))" "snd (uptane_write_manifest tiny_fw ''E'' (Some ?i))"]
  show ?thesis by auto
qed

section \<open>Where the checks are not enough\<close>

text \<open>
  The buffer that a signature is decoded into is large enough when the length of the base64 text is a multiple
  of four: then every access is inside of an object.
\<close>

lemma signature_buffer_safe:
  assumes "0 \<le> t_start token" and "t_end token \<le> int (length json_sig)" and "4 dvd JSON_TOK_LEN token"
  shows "parse_sig_value json_sig token \<noteq> None"
  by (rule parse_sig_value_safe [OF assms])

text \<open>
  The buffer is not large enough for every text that passes the length check: a base64 text of 89 characters is
  decoded into the byte behind the buffer.
\<close>

lemma signature_buffer_overrun:
  "parse_sig_value (replicate 89 (CHR ''A'') @ [CHR 0x22]) (sample_token\<lparr>t_end := 89\<rparr>) = None"
  by code_simp



end
