(* ===== verification/Byte_Strings.thy ===== *)
theory Byte_Strings
  imports "HOL-Library.Word"
begin

text \<open>Byte strings as numbers, least significant byte first.\<close>

unbundle bit_operations_syntax

type_synonym octets = "8 word list"

fun le_value :: "octets \<Rightarrow> int" where
  "le_value [] = 0"
| "le_value (b # bs) = uint b + 256 * le_value bs"

lemma le_value_append: "le_value (xs @ ys) = le_value xs + 256 ^ length xs * le_value ys"
  by (induction xs) (auto simp: algebra_simps)

lemma byte_bound: "0 \<le> uint (b :: 8 word)" "uint (b :: 8 word) < 256"
  using uint_bounded [of b] by simp_all

lemma le_value_bound: "0 \<le> le_value xs" "le_value xs < 256 ^ length xs"
proof (induction xs)
  case (Cons b bs)
  case 1 show ?case using Cons(1) byte_bound [of b] by simp
  case 2 show ?case using Cons(2) byte_bound [of b] by simp
qed simp_all

lemma le_value_inj:
  assumes "length xs = length ys" and "le_value xs = le_value ys"
  shows "xs = ys"
  using assms
proof (induction xs ys rule: list_induct2)
  case (Cons x xs y ys)
  have e: "uint x + 256 * le_value xs = uint y + 256 * le_value ys" using Cons.prems by simp
  then have "(uint x + 256 * le_value xs) mod 256 = (uint y + 256 * le_value ys) mod 256" by simp
  then have "uint x = uint y" using byte_bound [of x] byte_bound [of y] by simp
  with e Cons.IH show ?case by (simp add: word_uint_eq_iff)
qed simp

lemma uint_low_byte: "8 \<le> LENGTH('a) \<Longrightarrow> uint (ucast (c :: 'a::len word) :: 8 word) = uint c mod 256"
  by (simp add: unsigned_ucast_eq take_bit_eq_mod)

lemma uint_shift_byte: "uint (drop_bit 8 (c :: 'a::len word)) = uint c div 256"
  by (simp only: unsigned_drop_bit_eq) (simp add: drop_bit_eq_div take_bit_int_eq_self uint_bounded)

lemma uint_add_small: "uint a + uint b < 2 ^ LENGTH('a) \<Longrightarrow> uint ((a :: 'a::len word) + b) = uint a + uint b"
  by (simp add: uint_word_ariths(1))

lemma uint_mult_small: "uint a * uint b < 2 ^ LENGTH('a) \<Longrightarrow> uint ((a :: 'a::len word) * b) = uint a * uint b"
  by (simp add: uint_word_ariths(3))

lemma uint_diff_small: "uint b \<le> uint a \<Longrightarrow> uint ((a :: 'a::len word) - b) = uint a - uint b"
  using uint_bounded [of a] uint_ge_0 [of b] by (simp add: uint_word_ariths(2) del: uint_bounded uint_ge_0)

lemma uint_ucast_byte: "8 \<le> LENGTH('a) \<Longrightarrow> uint (ucast (x :: 8 word) :: 'a::len word) = uint x"
proof -
  assume "8 \<le> LENGTH('a)"
  then have "(2 :: int) ^ 8 \<le> 2 ^ LENGTH('a)" by (intro power_increasing) simp_all
  with byte_bound [of x] show ?thesis by (simp add: unsigned_ucast_eq take_bit_int_eq_self)
qed

lemma uint_shift: "uint (drop_bit n (c :: 'a::len word)) = uint c div 2 ^ n"
proof -
  have "uint (drop_bit n c) = drop_bit n (take_bit LENGTH('a) (uint c))" by (rule unsigned_drop_bit_eq)
  also have "take_bit LENGTH('a) (uint c) = uint c" using uint_bounded [of c] by (simp only: take_bit_int_eq_self uint_ge_0)
  finally show ?thesis by (simp only: drop_bit_eq_div)
qed

lemma le_value_zero: "le_value (replicate n 0) = 0"
  by (induction n) simp_all

lemma digit_split: "k * (u mod n) + k * n * (u div n) = k * (u :: int)"
proof -
  have "u mod n + n * (u div n) = u" by simp
  then show ?thesis by (simp only: mult.assoc distrib_left [symmetric])
qed

lemma mod_once: "0 \<le> y \<Longrightarrow> y < 2 * p \<Longrightarrow> (if p \<le> y then y - p else y) = y mod (p :: int)"
  using mod_pos_pos_trivial [of "y - p" p] by simp

lemma xor_cancel: "x XOR (y XOR x) = (y :: 'a::len word)"
  by (rule bit_word_eqI) (auto simp: bit_simps)

lemma bit_of_bytes: "i < 8 * length e \<Longrightarrow> odd (le_value e div 2 ^ i) \<longleftrightarrow> bit (e ! (i div 8)) (i mod 8)"
proof (induction e arbitrary: i)
  case (Cons b bs)
  show ?case
  proof (cases "i < 8")
    case True
    have "take_bit 8 (le_value (b # bs)) = uint b" using byte_bound [of b] by (simp add: take_bit_eq_mod)
    then have "bit (uint b) i \<longleftrightarrow> bit (le_value (b # bs)) i" using True by (metis bit_take_bit_iff)
    with True show ?thesis by (simp only: bit_iff_odd [symmetric]) (simp add: bit_uint_iff)
  next
    case False
    have "le_value (b # bs) div 256 = le_value bs" using byte_bound [of b] by simp
    moreover have "(2 :: int) ^ i = 256 * 2 ^ (i - 8)" using False power_add [of "2 :: int" 8 "i - 8"] by simp
    ultimately have "le_value (b # bs) div 2 ^ i = le_value bs div 2 ^ (i - 8)" by (simp only: zdiv_zmult2_eq zero_le_power zero_le_numeral)
    moreover have "i div 8 = Suc ((i - 8) div 8)" "i mod 8 = (i - 8) mod 8" using False by (simp_all add: le_div_geq le_mod_geq)
    ultimately show ?thesis using Cons False by simp
  qed
qed simp

end
