(* ===== verification/Asn1_Cer.thy ===== *)
theory Asn1_Cer
  imports Prelude Byte_Strings "HOL-Library.Monad_Syntax"
begin

text \<open>
  The CER codec of the primary client (\<open>libaktualizr/asn1/asn1-cer.cc\<close>).  A \<open>std::string\<close> is a list of bytes.
  Whether \<open>char\<close> is signed differs between the platforms and is the parameter \<open>char_signed\<close> of the decoder.
\<close>

unbundle bit_operations_syntax

section \<open>Tags\<close>

definition kAsn1Universal :: "8 word" where "kAsn1Universal = 0x00"

definition kUnknown :: "8 word" where "kUnknown = 0xff"

definition kAsn1EndSequence :: "8 word" where "kAsn1EndSequence = 0x00"

definition kAsn1Sequence :: "8 word" where "kAsn1Sequence = 0x10"

definition integer_tags :: "8 word list" where
  "integer_tags = [0x02, 0x01, 0x0a]"

definition string_tags :: "8 word list" where
  "string_tags = [0x04, 0x0c, 0x12, 0x13, 0x14, 0x15, 0x16, 0x17, 0x18, 0x19, 0x1a, 0x1b, 0x1c, 0x1d]"

definition CER_MAX_PRIMITIVESTRING :: nat where "CER_MAX_PRIMITIVESTRING = 1000"

section \<open>Encoder\<close>

text \<open>The \<open>do\<close> loop of \<open>cer_encode_length\<close>, least significant byte first.\<close>

function length_bytes :: "nat \<Rightarrow> octets" where
  "length_bytes len = of_nat (len mod 256) # (if len div 256 = 0 then [] else length_bytes (len div 256))"
  by pat_completeness auto
termination
  by (relation "measure id") auto

declare length_bytes.simps [simp del]

definition cer_encode_length :: "nat \<Rightarrow> octets" where
  "cer_encode_length len =
     (if len \<le> 127 then [of_nat len]
      else let res = length_bytes len in rev (res @ [of_nat (length res) OR 0x80]))"

definition shr8 :: "32 word \<Rightarrow> 32 word" where
  "shr8 arg = drop_bit 8 arg OR (if sint arg < 0 then 0xff000000 else 0)"

lemma top_mask: "(0xff000000 :: 32 word) = push_bit 24 (mask 8)"
  by (simp add: push_bit_eq_mult mask_eq_exp_minus_1)

lemma sint_neg_bit: "sint (a :: 'a::len word) < 0 \<longleftrightarrow> bit a (LENGTH('a) - 1)"
  by (simp add: bit_last_iff word_sless_alt)

lemma shr8_signed: "shr8 arg = signed_drop_bit 8 arg"
  unfolding shr8_def top_mask sint_neg_bit
  by (rule bit_word_eqI) (auto simp: bit_simps dest: bit_imp_le_length)

lemma sint_shr8: "sint (shr8 arg) = sint arg div 256"
  by (simp add: shr8_signed sint_signed_drop_bit_eq drop_bit_eq_div)

lemma all_ones: "(0xffffffff :: 32 word) = - 1"
  by simp

text \<open>
  The \<open>do\<close> loop of \<open>cer_encode_integer\<close>: the bytes, least significant first, and the rest of the number, which is
  0 or -1.
\<close>

function integer_bytes :: "32 word \<Rightarrow> octets \<times> 32 word" where
  "integer_bytes number =
     (let rest = shr8 number
      in if rest \<noteq> 0 \<and> rest \<noteq> 0xffffffff
         then let (res, m) = integer_bytes rest in (ucast (number AND 0xFF) # res, m)
         else ([ucast (number AND 0xFF)], rest))"
  by pat_completeness auto
termination
proof (relation "measure (\<lambda>n. nat \<bar>sint n\<bar>)", goal_cases)
  case (2 number rest)
  then have "rest \<noteq> 0" "rest \<noteq> - 1" and r: "sint rest = sint number div 256" by (auto simp: sint_shr8)
  then have "sint rest \<noteq> 0" "sint rest \<noteq> - 1" by (metis signed_word_eqI sint_0, metis signed_word_eqI sint_n1)
  with r show ?case by simp linarith
qed simp

declare integer_bytes.simps [simp del]

text \<open>The padding depends on the first byte of the loop, which is the least significant one.\<close>

definition cer_encode_integer :: "32 word \<Rightarrow> octets" where
  "cer_encode_integer number =
     (let (res, number) = integer_bytes number;
          res = (if bit (res ! 0) 7 \<and> number = 0 then res @ [0]
                 else if \<not> bit (res ! 0) 7 \<and> number = 0xffffffff then res @ [0xFF] else res)
      in rev (res @ [of_nat (length res)]))"

text \<open>\<open>cer_encode_string\<close> and its loop over the chunks of a long string.\<close>

function cer_encode_string :: "octets \<Rightarrow> 8 word \<Rightarrow> octets"
  and encode_chunks :: "octets \<Rightarrow> 8 word \<Rightarrow> octets" where
  "cer_encode_string contents tag =
     (if length contents \<le> CER_MAX_PRIMITIVESTRING then cer_encode_length (length contents) @ contents
      else [0x80] @ encode_chunks contents tag @ [0x00, 0x00])"
| "encode_chunks contents tag =
     (if contents = [] then []
      else let chunk_size = (if CER_MAX_PRIMITIVESTRING < length contents then CER_MAX_PRIMITIVESTRING else length contents)
           in [tag] @ cer_encode_string (take chunk_size contents) tag @ encode_chunks (drop chunk_size contents) tag)"
  by pat_completeness auto
termination
  by (relation "measure (\<lambda>x. case x of
        Inl (c, t) \<Rightarrow> if length c \<le> CER_MAX_PRIMITIVESTRING then 0 else 2 * length c + 1 | Inr (c, t) \<Rightarrow> 2 * length c)")
    (auto simp: CER_MAX_PRIMITIVESTRING_def)

declare cer_encode_string.simps [simp del] encode_chunks.simps [simp del]

section \<open>Decoder\<close>

text \<open>
  \<open>OutOfRange\<close> is the exception of \<open>std::string::substr\<close>; \<open>UndefinedBehaviour\<close> is an access behind the terminating
  character of a string.
\<close>

datatype cer_error = OutOfRange | UndefinedBehaviour

definition str_at :: "octets \<Rightarrow> nat \<Rightarrow> cer_error + 8 word" where
  "str_at s i = (if i < length s then Inr (s ! i) else if i = length s then Inr 0 else Inl UndefinedBehaviour)"

fun length_loop :: "octets \<Rightarrow> nat \<Rightarrow> nat \<Rightarrow> 32 word \<Rightarrow> cer_error + 32 word" where
  "length_loop content 0 i res = Inr res"
| "length_loop content (Suc n) i res =
     bindE (str_at content (i + 1)) (\<lambda>c. length_loop content n (i + 1) (push_bit 8 res OR ucast c))"

text \<open>The length and the end position; -1 is the indefinite form and -2 an error.\<close>

definition cer_decode_length :: "octets \<Rightarrow> cer_error + int \<times> nat" where
  "cer_decode_length content =
     bindE (str_at content 0) (\<lambda>c.
     if c = 0x80 then Inr (-1, 1)
     else if c AND 0x80 = 0 then Inr (uint c, 1)
     else let len_len = unat (c AND 0x7F)
          in if 4 < len_len then Inr (-2, len_len + 1)
             else bindE (length_loop content len_len 0 0) (\<lambda>res.
                  Inr (if sint res < 0 then -2 else sint res, len_len + 1)))"

text \<open>\<open>s.substr(pos, n)\<close>\<close>

definition substr :: "octets \<Rightarrow> nat \<Rightarrow> nat \<Rightarrow> cer_error + octets" where
  "substr s p n = (if length s < p then Inl OutOfRange else Inr (take n (drop p s)))"

definition char_int :: "bool \<Rightarrow> 8 word \<Rightarrow> 32 word" where
  "char_int char_signed c = (if char_signed then scast c else ucast c)"

fun sign_loop :: "nat \<Rightarrow> nat \<Rightarrow> 32 word \<Rightarrow> 32 word" where
  "sign_loop 0 i res = res"
| "sign_loop (Suc n) i res = sign_loop n (i + 1) (res OR push_bit (8 * i) 0xff)"

definition integer_value :: "bool \<Rightarrow> octets \<Rightarrow> nat \<Rightarrow> 32 word" where
  "integer_value char_signed content token_len =
     (let res = foldl (\<lambda>res c. push_bit 8 res OR char_int char_signed c) 0 content
      in if bit (content ! 0) 7 then sign_loop (4 - token_len) token_len res else res)"

text \<open>
  What a call of \<open>cer_decode_token\<close> leaves: the returned type, \<open>*endpos\<close>, and the parameters where they are assigned.
\<close>

record cer_token =
  ct_type :: "8 word"
  ct_endpos :: nat
  ct_int :: "32 word option"
  ct_string :: "octets option"

definition unknown_token :: cer_token where
  "unknown_token = \<lparr>ct_type = kUnknown, ct_endpos = 0, ct_int = None, ct_string = None\<rparr>"

text \<open>
  The part of \<open>cer_decode_token\<close> without the loop over the segments of a string: a result, or the tag and the start
  of the segments.
\<close>

definition cer_decode_head :: "bool \<Rightarrow> octets \<Rightarrow> cer_error + cer_token + (8 word \<times> nat)" where
  "cer_decode_head char_signed ber =
     (if length ber < 2 then Inr (Inl unknown_token)
      else
        let type_class = ber ! 0 AND 0xC0; tag = ber ! 0 AND 0x1F; constructed = (ber ! 0 AND 0x20 \<noteq> 0)
        in bindE (cer_decode_length (drop 1 ber)) (\<lambda>(token_len, len_endpos).
           if token_len < -1 then Inr (Inl unknown_token)
           else bindE (if token_len = -1 then Inr (drop 2 ber) else substr ber (1 + len_endpos) (nat token_len)) (\<lambda>content.
           if type_class = kAsn1Universal then
             if tag = kAsn1Sequence then
               if \<not> constructed then Inr (Inl unknown_token)
               else Inr (Inl \<lparr>ct_type = kAsn1Sequence, ct_endpos = len_endpos + 1, ct_int = Some (of_int token_len), ct_string = None\<rparr>)
             else if tag = kAsn1EndSequence then
               Inr (Inl (if token_len \<noteq> 0 then unknown_token else unknown_token\<lparr>ct_type := kAsn1EndSequence\<rparr>))
             else if tag \<in> set integer_tags then
               if constructed \<or> token_len = -1 \<or> 4 < length content \<or> length content < 1 then Inr (Inl unknown_token)
               else Inr (Inl \<lparr>ct_type = tag, ct_endpos = 1 + len_endpos + nat token_len,
                              ct_int = Some (integer_value char_signed content (nat token_len)), ct_string = None\<rparr>)
             else if tag \<in> set string_tags then
               if 0 \<le> token_len
               then Inr (Inl \<lparr>ct_type = tag, ct_endpos = 1 + len_endpos + nat token_len, ct_int = None, ct_string = Some content\<rparr>)
               else Inr (Inr (tag, 1 + len_endpos))
             else Inr (Inl unknown_token)
           else if \<not> constructed then Inr (Inl unknown_token)
           else Inr (Inl \<lparr>ct_type = tag OR type_class, ct_endpos = len_endpos + 1, ct_int = Some (of_int token_len), ct_string = None\<rparr>))))"

text \<open>
  The loop over the segments; the recursive call of \<open>cer_decode_token\<close> is its head and, for a segment that is
  itself in segments, this loop.  The result \<open>None\<close> means that the call does not return.
\<close>

partial_function (option) cer_decode_segments ::
  "bool \<Rightarrow> octets \<Rightarrow> 8 word \<Rightarrow> nat \<Rightarrow> octets \<Rightarrow> (cer_error + cer_token) option" where
  "cer_decode_segments char_signed ber tag position acc =
     (if length ber < position then Some (Inl OutOfRange)
      else do {
        r \<leftarrow> (case cer_decode_head char_signed (drop position ber) of
                Inl e \<Rightarrow> Some (Inl e)
              | Inr h \<Rightarrow>
                  (case h of
                     Inl t \<Rightarrow> Some (Inr t)
                   | Inr w \<Rightarrow> cer_decode_segments char_signed (drop position ber) (fst w) (snd w) []));
        (case r of
           Inl e \<Rightarrow> Some (Inl e)
         | Inr t \<Rightarrow>
             if ct_type t = kAsn1EndSequence then Some (Inr \<lparr>ct_type = tag, ct_endpos = 0, ct_int = None, ct_string = Some acc\<rparr>)
             else if ct_type t \<noteq> tag then Some (Inr \<lparr>ct_type = kUnknown, ct_endpos = 0, ct_int = None, ct_string = Some acc\<rparr>)
             else cer_decode_segments char_signed ber tag (position + ct_endpos t)
                    (acc @ (case ct_string t of None \<Rightarrow> [] | Some s \<Rightarrow> s)))
      })"

declare cer_decode_segments.simps [code]

definition cer_decode_token :: "bool \<Rightarrow> octets \<Rightarrow> (cer_error + cer_token) option" where
  "cer_decode_token char_signed ber =
     (case cer_decode_head char_signed ber of
        Inl e \<Rightarrow> Some (Inl e)
      | Inr h \<Rightarrow>
          (case h of
             Inl t \<Rightarrow> Some (Inr t)
           | Inr w \<Rightarrow> cer_decode_segments char_signed ber (fst w) (snd w) []))"

section \<open>Byte strings as numbers\<close>

lemma shift_or_byte: "push_bit 8 r OR ucast (c :: 8 word) = r * 256 + (ucast c :: 32 word)"
proof -
  have "push_bit 8 r AND ucast c = (0 :: 32 word)"
    by (rule bit_word_eqI) (auto simp: bit_simps dest: bit_imp_le_length)
  then have "push_bit 8 r OR ucast c = push_bit 8 r + (ucast c :: 32 word)"
    by (simp add: disjunctive_add_eq_or)
  then show ?thesis by (simp add: push_bit_eq_mult)
qed

lemma of_int_byte: "of_int (uint (c :: 8 word)) = (ucast c :: 32 word)"
  by simp

lemma foldl_be: "foldl (\<lambda>r c. push_bit 8 r OR ucast c) r (rev bs) = r * 256 ^ length bs + (of_int (le_value bs) :: 32 word)"
  by (induction bs arbitrary: r) (simp_all add: shift_or_byte algebra_simps)

lemma pow256_step:
  assumes "n div 256 \<noteq> 0" "0 < j" "(n :: nat) < 256 ^ j"
  obtains i where "j = Suc i" "0 < i" "n div 256 < 256 ^ i"
proof -
  obtain i where i: "j = Suc i" "0 < i" using assms by (cases j; cases "j = 1") auto
  with assms(3) have "n div 256 < 256 ^ i" by (simp add: div_less_iff_less_mult mult.commute)
  with i that show ?thesis by blast
qed

lemma length_bytes_facts:
  "le_value (length_bytes n) = int n \<and> 0 < length (length_bytes n) \<and> (\<forall>j. 0 < j \<and> n < 256 ^ j \<longrightarrow> length (length_bytes n) \<le> j)"
proof (induction n rule: length_bytes.induct)
  case (1 n)
  have v: "uint (of_nat (n mod 256) :: 8 word) = int (n mod 256)" by (simp add: unsigned_of_nat take_bit_eq_mod)
  show ?case
  proof (cases "n div 256 = 0")
    case True
    have "length_bytes n = [of_nat (n mod 256)]" by (subst length_bytes.simps) (simp add: True)
    moreover have "int (n mod 256) = int n" using True by (simp add: div_eq_0_iff)
    ultimately show ?thesis using v by (simp only: le_value.simps) simp
  next
    case False
    have IH: "le_value (length_bytes (n div 256)) = int (n div 256)"
      "\<And>j. 0 < j \<Longrightarrow> n div 256 < 256 ^ j \<Longrightarrow> length (length_bytes (n div 256)) \<le> j" using 1 [OF False] by blast+
    have eq: "length_bytes n = of_nat (n mod 256) # length_bytes (n div 256)"
      by (subst length_bytes.simps) (simp only: False if_False)
    have "length (length_bytes n) \<le> j" if j: "0 < j" "n < 256 ^ j" for j
      using pow256_step [OF False j] IH(2) eq by (metis length_Cons Suc_le_mono)
    moreover have "le_value (length_bytes n) = int n"
      unfolding eq le_value.simps v IH(1) by (metis of_nat_mult of_nat_numeral of_nat_add mod_mult_div_eq mult.commute)
    ultimately show ?thesis using eq by (metis length_greater_0_conv list.discI)
  qed
qed

section \<open>Lengths\<close>

lemma length_loop_reads:
  "pre \<noteq> [] \<Longrightarrow> length_loop (pre @ ys @ xs) (length ys) (length pre - 1) res = Inr (foldl (\<lambda>r c. push_bit 8 r OR ucast c) res ys)"
proof (induction ys arbitrary: pre res)
  case (Cons y ys)
  from Cons.prems have a: "str_at (pre @ (y # ys) @ xs) (length pre - 1 + 1) = Inr y" by (simp add: str_at_def nth_append)
  have b: "length_loop ((pre @ [y]) @ ys @ xs) (length ys) (length (pre @ [y]) - 1) (push_bit 8 res OR ucast y) =
      Inr (foldl (\<lambda>r c. push_bit 8 r OR ucast c) (push_bit 8 res OR ucast y) ys)" by (rule Cons.IH) simp
  have "length (pre @ [y]) - 1 = length pre - 1 + 1" using Cons.prems by simp
  with a b show ?case by (simp add: bindE_def)
qed simp

lemma sint_of_int_small: "0 \<le> v \<Longrightarrow> v < 2 ^ 31 \<Longrightarrow> sint (of_int v :: 32 word) = v"
  by (simp add: signed_of_int signed_take_bit_int_eq_self)

lemma small_byte: "n \<le> 127 \<Longrightarrow> (of_nat n :: 8 word) \<noteq> 0x80 \<and> (of_nat n :: 8 word) AND 0x80 = 0 \<and> uint (of_nat n :: 8 word) = int n"
proof -
  assume n: "n \<le> 127"
  then have u: "uint (of_nat n :: 8 word) = int n" by (simp add: unsigned_of_nat take_bit_nat_eq_self)
  have "\<not> bit (of_nat n :: 8 word) 7" using n by (simp add: bit_simps bit_nat_def)
  with u n show ?thesis using and_exp_eq_0_iff_not_bit [of "of_nat n :: 8 word" 7] by (auto dest: arg_cong [of _ _ uint])
qed

lemma cer_decode_length_encode:
  assumes "n < 2 ^ 31"
  shows "cer_decode_length (cer_encode_length n @ xs) = Inr (int n, length (cer_encode_length n))"
proof (cases "n \<le> 127")
  case True
  with small_byte [OF True] show ?thesis by (simp add: cer_encode_length_def cer_decode_length_def str_at_def bindE_def)
next
  case False
  let ?b = "length_bytes n"
  have f: "le_value ?b = int n" "0 < length ?b" "length ?b \<le> 4" using length_bytes_facts [of n] assms by auto
  from f(2,3) have k: "length ?b = 1 \<or> length ?b = 2 \<or> length ?b = 3 \<or> length ?b = 4" by arith
  let ?c = "of_nat (length ?b) OR 0x80 :: 8 word"
  have c: "?c \<noteq> 0x80" "?c AND 0x80 \<noteq> 0" "unat (?c AND 0x7F) = length ?b" using k by (elim disjE; simp)+
  have l: "length_loop (?c # rev ?b @ xs) (length ?b) 0 0 = Inr (of_int (int n))"
    using length_loop_reads [of "[?c]" "rev ?b" xs 0] foldl_be [of 0 ?b] f(1) by simp
  have s: "sint (of_int (int n) :: 32 word) = int n" using assms by (intro sint_of_int_small) simp_all
  have e: "cer_encode_length n = ?c # rev ?b" using False by (simp add: cer_encode_length_def Let_def)
  show ?thesis unfolding e cer_decode_length_def using c f(3) l s by (simp add: str_at_def bindE_def Let_def del: of_int_of_nat_eq)
qed

section \<open>Strings\<close>

lemma string_tag_facts:
  assumes "tag \<in> set string_tags"
  shows "tag AND 0xC0 = kAsn1Universal" "tag AND 0x1F = tag" "tag \<noteq> kAsn1Sequence" "tag \<noteq> kAsn1EndSequence" "tag \<notin> set integer_tags"
  using assms by (auto simp: string_tags_def kAsn1Universal_def kAsn1Sequence_def kAsn1EndSequence_def integer_tags_def)

lemma cer_encode_length_nonempty: "cer_encode_length n \<noteq> []"
  by (simp add: cer_encode_length_def Let_def)

lemma head_string:
  assumes "tag \<in> set string_tags" "length c < 2 ^ 31"
  shows "cer_decode_head char_signed (tag # cer_encode_length (length c) @ c @ rest) =
    Inr (Inl \<lparr>ct_type = tag, ct_endpos = 1 + length (cer_encode_length (length c)) + length c, ct_int = None, ct_string = Some c\<rparr>)"
proof -
  have l: "\<not> length (tag # cer_encode_length (length c) @ c @ rest) < 2"
    using cer_encode_length_nonempty [of "length c"] by (cases "cer_encode_length (length c)") auto
  note d = cer_decode_length_encode [OF assms(2), of "c @ rest"]
  have s: "substr (tag # cer_encode_length (length c) @ c @ rest) (1 + length (cer_encode_length (length c))) (nat (int (length c))) = Inr c"
    by (simp add: substr_def)
  show ?thesis unfolding cer_decode_head_def
    using l d s string_tag_facts [OF assms(1)] assms(1) cer_encode_length_nonempty by (simp add: bindE_def)
qed

lemma head_segments:
  assumes "tag \<in> set string_tags"
  shows "cer_decode_head char_signed (tag # 0x80 # rest) = Inr (Inr (tag, 2))"
  using string_tag_facts [OF assms] assms
  by (simp add: cer_decode_head_def cer_decode_length_def str_at_def bindE_def)

lemma head_end: "cer_decode_head char_signed (0 # 0 # rest) = Inr (Inl (unknown_token\<lparr>ct_type := kAsn1EndSequence\<rparr>))"
  by (simp add: cer_decode_head_def cer_decode_length_def str_at_def bindE_def substr_def kAsn1Universal_def kAsn1Sequence_def
      kAsn1EndSequence_def)

lemma segments_decoded:
  assumes "tag \<in> set string_tags"
  shows "cer_decode_segments char_signed (pre @ encode_chunks contents tag @ [0, 0] @ rest) tag (length pre) acc =
    Some (Inr \<lparr>ct_type = tag, ct_endpos = 0, ct_int = None, ct_string = Some (acc @ contents)\<rparr>)"
proof (induction "length contents" arbitrary: contents pre acc rule: less_induct)
  case less
  show ?case
  proof (cases "contents = []")
    case True
    then have "encode_chunks contents tag = []" by (simp add: encode_chunks.simps)
    then show ?thesis using True by (subst cer_decode_segments.simps) (simp add: head_end)
  next
    case False
    let ?n = "if CER_MAX_PRIMITIVESTRING < length contents then CER_MAX_PRIMITIVESTRING else length contents"
    define c where "c = take ?n contents"
    define block where "block = tag # cer_encode_length (length c) @ c"
    have c: "length c \<le> CER_MAX_PRIMITIVESTRING" "contents = c @ drop ?n contents" by (simp_all add: c_def)
    have chunks: "encode_chunks contents tag = block @ encode_chunks (drop ?n contents) tag"
      using False c(1) by (subst encode_chunks.simps) (simp add: Let_def block_def c_def cer_encode_string.simps)
    have small: "length c < 2 ^ 31" using c(1) by (simp add: CER_MAX_PRIMITIVESTRING_def)
    let ?tail = "encode_chunks (drop ?n contents) tag @ [0, 0] @ rest"
    have h: "cer_decode_head char_signed (block @ ?tail) = Inr (Inl \<lparr>ct_type = tag, ct_endpos = length block, ct_int = None, ct_string = Some c\<rparr>)"
      using head_string [OF assms small, of char_signed ?tail] by (simp add: block_def)
    have IH: "cer_decode_segments char_signed ((pre @ block) @ ?tail) tag (length (pre @ block)) (acc @ c) =
        Some (Inr \<lparr>ct_type = tag, ct_endpos = 0, ct_int = None, ct_string = Some ((acc @ c) @ drop ?n contents)\<rparr>)"
      by (rule less) (use False in \<open>simp add: CER_MAX_PRIMITIVESTRING_def\<close>)
    have "cer_decode_segments char_signed (pre @ block @ ?tail) tag (length pre) acc =
        cer_decode_segments char_signed (pre @ block @ ?tail) tag (length pre + length block) (acc @ c)"
      using h string_tag_facts(4) [OF assms] by (subst cer_decode_segments.simps) simp
    also have "\<dots> = Some (Inr \<lparr>ct_type = tag, ct_endpos = 0, ct_int = None, ct_string = Some (acc @ c @ drop ?n contents)\<rparr>)"
      using IH by simp
    finally show ?thesis using c(2) chunks by simp
  qed
qed

lemma cer_string_round_trip_lemma:
  assumes "tag \<in> set string_tags"
  shows "cer_decode_token char_signed (tag # cer_encode_string contents tag @ rest) =
    Some (Inr \<lparr>ct_type = tag,
      ct_endpos = (if length contents \<le> CER_MAX_PRIMITIVESTRING then 1 + length (cer_encode_string contents tag) else 0),
      ct_int = None, ct_string = Some contents\<rparr>)"
proof (cases "length contents \<le> CER_MAX_PRIMITIVESTRING")
  case True
  then have "length contents < 2 ^ 31" by (simp add: CER_MAX_PRIMITIVESTRING_def)
  from head_string [OF assms this] True show ?thesis by (simp add: cer_decode_token_def cer_encode_string.simps)
next
  case False
  then have e: "tag # cer_encode_string contents tag @ rest = [tag, 0x80] @ encode_chunks contents tag @ [0, 0] @ rest"
    by (simp add: cer_encode_string.simps)
  from segments_decoded [OF assms, of char_signed "[tag, 0x80]" contents rest "[]"] False head_segments [OF assms]
  show ?thesis unfolding e by (simp add: cer_decode_token_def numeral_2_eq_2)
qed

section \<open>Integers\<close>

lemma sint_low_byte: "sint n = uint (ucast (n AND 0xFF) :: 8 word) + 256 * sint (shr8 (n :: 32 word))"
proof -
  have "uint n = sint n mod 2 ^ 32" by (simp add: uint_sint take_bit_eq_mod)
  then have "sint n mod 256 = uint n mod 256" by (simp add: mod_mod_cancel)
  moreover have "n AND 0xFF = take_bit 8 n" by (simp add: take_bit_eq_mask mask_eq_exp_minus_1)
  then have "(ucast (n AND 0xFF) :: 8 word) = ucast n" by (auto intro!: bit_word_eqI simp: bit_simps)
  then have "uint (ucast (n AND 0xFF) :: 8 word) = uint n mod 256" by (simp add: unsigned_ucast_eq take_bit_eq_mod)
  moreover have "sint n = sint n mod 256 + 256 * (sint n div 256)" by simp
  ultimately show ?thesis by (simp add: sint_shr8)
qed

lemma integer_bytes_facts:
  assumes "integer_bytes n = (res, m)"
  shows "sint n = le_value res + 256 ^ length res * sint m \<and> (m = 0 \<or> m = - 1) \<and> res \<noteq> [] \<and>
    (\<forall>j. 0 < j \<and> - (256 ^ j) \<le> sint n \<and> sint n < 256 ^ j \<longrightarrow> length res \<le> j)"
  using assms
proof (induction n arbitrary: res m rule: integer_bytes.induct)
  case (1 n)
  let ?r = "shr8 n" and ?b = "ucast (n AND 0xFF) :: 8 word"
  note low = sint_low_byte [of n]
  show ?case
  proof (cases "?r \<noteq> 0 \<and> ?r \<noteq> 0xffffffff")
    case False
    then have "res = [?b]" "m = ?r" "?r = 0 \<or> ?r = - 1"
      using 1(2) by (subst (asm) integer_bytes.simps, auto simp: Let_def)+
    with low show ?thesis by auto
  next
    case True
    obtain rs k where rs: "integer_bytes ?r = (rs, k)" by (cases "integer_bytes ?r")
    have res: "res = ?b # rs" "m = k" using 1(2) True rs by (subst (asm) integer_bytes.simps, simp add: Let_def)+
    note IH = 1(1) [OF refl True rs]
    have "length res \<le> j" if j: "0 < j" "- (256 ^ j) \<le> sint n" "sint n < 256 ^ j" for j
    proof -
      have r: "sint ?r = sint n div 256" by (rule sint_shr8)
      have "sint ?r \<noteq> 0" "sint ?r \<noteq> - 1" using True by (metis signed_word_eqI sint_0, metis signed_word_eqI sint_n1 all_ones)
      then have "j \<noteq> 1" using j r by auto
      with j(1) obtain i where i: "j = Suc i" "0 < i" by (cases j) auto
      with j r have "- (256 ^ i) \<le> sint ?r" "sint ?r < 256 ^ i" by auto
      with IH i res show ?thesis by auto
    qed
    with IH low res show ?thesis by (auto simp: algebra_simps)
  qed
qed

lemma or_high_bits: "take_bit n (v :: 32 word) = v \<Longrightarrow> v OR NOT (mask n) = v - 2 ^ n"
proof -
  assume "take_bit n v = v"
  then have "v AND NOT (mask n) = 0" by (metis take_bit_eq_mask and.assoc bit.conj_cancel_right and_zero_eq)
  then have "v OR NOT (mask n) = v + NOT (mask n)" by (simp add: disjunctive_add_eq_or)
  also have "\<dots> = v - 2 ^ n" by (simp add: not_eq_complement mask_eq_exp_minus_1)
  finally show ?thesis .
qed

lemma high_bits: "(0xffffff00 :: 32 word) = - 0x100" "(0xffff0000 :: 32 word) = - 0x10000" "(0xff000000 :: 32 word) = - 0x1000000"
    "(0x100000000 :: 32 word) = 0"
  by simp_all

lemma sign_loop_ext:
  assumes "0 < k" "k \<le> 4" "0 \<le> v" "v < 256 ^ k"
  shows "sign_loop (4 - k) k (of_int v) = (of_int (v - 256 ^ k) :: 32 word)"
proof -
  have p: "(256 :: int) ^ k = 2 ^ (8 * k)" by (simp add: power_mult)
  have "take_bit (8 * k) (of_int v :: 32 word) = of_int (take_bit (8 * k) v)"
    by (auto intro!: bit_word_eqI simp: bit_simps)
  also have "\<dots> = of_int v" using assms(3,4) p by (simp add: take_bit_int_eq_self)
  finally have "of_int v OR NOT (mask (8 * k)) = (of_int v :: 32 word) - 2 ^ (8 * k)" by (rule or_high_bits)
  also have "\<dots> = of_int (v - 256 ^ k)" by (simp add: p)
  finally have o: "of_int v OR NOT (mask (8 * k)) = (of_int (v - 256 ^ k) :: 32 word)" .
  from assms(1,2) have "k = 1 \<or> k = 2 \<or> k = 3 \<or> k = 4" by arith
  then have "sign_loop (4 - k) k (of_int v) = (of_int v OR NOT (mask (8 * k)) :: 32 word)"
    by (elim disjE) (simp_all add: numeral_eq_Suc [of num.One] eval_nat_numeral or.assoc mask_eq_exp_minus_1 high_bits)
  with o show ?thesis by simp
qed

lemma integer_value_unsigned:
  assumes "xs \<noteq> []" "length xs \<le> 4"
  shows "integer_value False (rev xs) (length xs) = of_int (le_value xs - (if bit (last xs) 7 then 256 ^ length xs else 0))"
proof -
  have "rev xs ! 0 = last xs" using assms(1) by (simp add: rev_nth last_conv_nth)
  moreover have "sign_loop (4 - length xs) (length xs) (of_int (le_value xs)) = of_int (le_value xs - 256 ^ length xs)"
    using sign_loop_ext [of "length xs" "le_value xs"] assms le_value_bound [of xs] by simp
  ultimately show ?thesis using foldl_be [of 0 xs] by (simp add: integer_value_def char_int_def)
qed

lemma byte_sign: "bit (b :: 8 word) 7 \<longleftrightarrow> 128 \<le> uint b"
proof -
  have "uint b div 128 = 0 \<or> uint b div 128 = 1" using byte_bound [of b] by auto
  moreover have "bit b 7 = bit (uint b) 7" by (simp add: bit_uint_iff)
  then have "bit b 7 = odd (uint b div 128)" by (simp add: bit_int_def)
  ultimately show ?thesis by auto
qed

lemma le_value_sign:
  assumes "xs \<noteq> []"
  shows "bit (last xs) 7 \<longleftrightarrow> 128 * 256 ^ (length xs - 1) \<le> le_value xs"
proof -
  let ?p = "256 ^ (length xs - 1) :: int" and ?b = "uint (last xs)" and ?l = "le_value (butlast xs)"
  have v: "le_value xs = ?l + ?p * ?b"
    using le_value_append [of "butlast xs" "[last xs]"] assms by simp
  have l: "0 \<le> ?l" "?l < ?p" using le_value_bound [of "butlast xs"] by simp_all
  show ?thesis unfolding byte_sign v
  proof
    assume "128 \<le> ?b"
    then have "?p * 128 \<le> ?p * ?b" by (intro mult_left_mono) simp_all
    with l show "128 * ?p \<le> ?l + ?p * ?b" by linarith
  next
    assume a: "128 * ?p \<le> ?l + ?p * ?b"
    show "128 \<le> ?b"
    proof (rule ccontr)
      assume "\<not> 128 \<le> ?b"
      then have "?p * ?b \<le> ?p * 127" by (intro mult_left_mono) simp_all
      with a l show False by linarith
    qed
  qed
qed

lemma integer_tag_facts:
  assumes "tag \<in> set integer_tags"
  shows "tag AND 0xC0 = kAsn1Universal" "tag AND 0x1F = tag" "tag AND 0x20 = 0" "tag \<noteq> kAsn1Sequence" "tag \<noteq> kAsn1EndSequence"
  using assms by (auto simp: kAsn1Universal_def kAsn1Sequence_def kAsn1EndSequence_def integer_tags_def)

lemma head_integer:
  assumes "tag \<in> set integer_tags" "c \<noteq> []" "length c \<le> 4"
  shows "cer_decode_token char_signed (tag # of_nat (length c) # c @ rest) =
    Some (Inr \<lparr>ct_type = tag, ct_endpos = 2 + length c, ct_int = Some (integer_value char_signed c (length c)), ct_string = None\<rparr>)"
proof -
  have "cer_decode_length (of_nat (length c) # c @ rest) = Inr (int (length c), 1)"
    using small_byte [of "length c"] assms(3) by (simp add: cer_decode_length_def str_at_def bindE_def)
  moreover have "substr (tag # of_nat (length c) # c @ rest) 2 (nat (int (length c))) = Inr c"
    by (simp add: substr_def)
  ultimately show ?thesis using integer_tag_facts [OF assms(1)] assms
    by (simp add: cer_decode_token_def cer_decode_head_def bindE_def numeral_2_eq_2)
qed

text \<open>
  The encoder pads correctly when the lowest and the highest byte of the number agree in their sign bit.
\<close>

lemma encoded_integer:
  assumes "integer_bytes n = (res, m)" "bit (hd res) 7 = bit (last res) 7"
  shows "\<exists>xs. cer_encode_integer n = of_nat (length xs) # rev xs \<and> xs \<noteq> [] \<and> length xs \<le> 4 \<and>
    sint n = le_value xs - (if bit (last xs) 7 then 256 ^ length xs else 0)"
proof -
  from integer_bytes_facts [OF assms(1)]
  have f: "sint n = le_value res + 256 ^ length res * sint m" "m = 0 \<or> m = - 1" "res \<noteq> []"
    and len: "\<And>j. 0 < j \<Longrightarrow> - (256 ^ j) \<le> sint n \<Longrightarrow> sint n < 256 ^ j \<Longrightarrow> length res \<le> j" by auto
  have r: "- (2 ^ 31) \<le> sint n" "sint n < 2 ^ 31" using sint_ge [of n] sint_lt [of n] by simp_all
  have four: "length res \<le> 4" using len [of 4] r by simp
  have hd0: "res ! 0 = hd res" using f(3) by (simp add: hd_conv_nth)
  have top4: "bit (last res) 7 \<longleftrightarrow> m = - 1" if "length res = 4"
    using le_value_sign [OF f(3)] f(1,2) r that le_value_bound [of res] by auto
  show ?thesis
  proof (cases "bit (hd res) 7 \<longleftrightarrow> m = - 1")
    case True
    then have "cer_encode_integer n = of_nat (length res) # rev res"
      using assms(1) f(2) hd0 by (auto simp: cer_encode_integer_def)
    with True f four assms(2) show ?thesis by (intro exI [of _ res]) auto
  next
    case False
    let ?p = "if m = 0 then 0 else 0xFF :: 8 word"
    have "length res < 4" using False top4 four assms(2) by fastforce
    moreover have "cer_encode_integer n = of_nat (length (res @ [?p])) # rev (res @ [?p])"
      using False assms(1) f(2) hd0 by (auto simp: cer_encode_integer_def)
    moreover have "sint n = le_value (res @ [?p]) - (if bit ?p 7 then 256 ^ length (res @ [?p]) else 0)"
      using f(1,2) by (auto simp: le_value_append)
    ultimately show ?thesis by (intro exI [of _ "res @ [?p]"]) auto
  qed
qed

lemma small_integer_bytes:
  assumes "- 256 \<le> sint n" "sint n < 256"
  shows "bit (hd (fst (integer_bytes n))) 7 = bit (last (fst (integer_bytes n))) 7"
proof -
  obtain res m where i: "integer_bytes n = (res, m)" by (cases "integer_bytes n")
  with integer_bytes_facts [OF i] assms have "res \<noteq> []" "length res \<le> 1" by auto
  then have "hd res = last res" by (cases res) auto
  with i show ?thesis by simp
qed

section \<open>Properties\<close>

text \<open>
  C37.  Where \<open>char\<close> is unsigned, an encoded integer decodes to itself, with the right end position, when its
  lowest and its highest byte agree in their sign bit; all integers from -256 to 255 do (\<open>small_integer_bytes\<close>).  (The encoder decides
  about the padding by the lowest byte where it needs the highest one.)
\<close>

theorem cer_integer_round_trip:
  assumes "tag \<in> set integer_tags"
    and "bit (hd (fst (integer_bytes n))) 7 = bit (last (fst (integer_bytes n))) 7"
  shows "cer_decode_token False (tag # cer_encode_integer n @ rest) =
    Some (Inr \<lparr>ct_type = tag, ct_endpos = 1 + length (cer_encode_integer n), ct_int = Some n, ct_string = None\<rparr>)"
proof -
  obtain res m where i: "integer_bytes n = (res, m)" by (cases "integer_bytes n")
  with assms(2) have b: "bit (hd res) 7 = bit (last res) 7" by simp
  from encoded_integer [OF i b] obtain xs where
    x: "cer_encode_integer n = of_nat (length xs) # rev xs" "xs \<noteq> []" "length xs \<le> 4"
       "sint n = le_value xs - (if bit (last xs) 7 then 256 ^ length xs else 0)" by blast
  have "integer_value False (rev xs) (length xs) = of_int (sint n)"
    using integer_value_unsigned [OF x(2,3)] x(4) by simp
  then show ?thesis using head_integer [OF assms(1), of "rev xs" False rest] x(1,2,3) by simp
qed

theorem cer_integer_round_trip_witness:
  "cer_decode_token False (0x02 # cer_encode_integer (- 300) @ [7]) =
     Some (Inr \<lparr>ct_type = 0x02, ct_endpos = 4, ct_int = Some (- 300), ct_string = None\<rparr>)"
proof -
  have "(0x02 :: 8 word) \<in> set integer_tags" by (simp add: integer_tags_def)
  moreover have "bit (hd (fst (integer_bytes (- 300)))) 7 = bit (last (fst (integer_bytes (- 300)))) 7"
    "length (cer_encode_integer (- 300)) = 3" by code_simp+
  ultimately show ?thesis using cer_integer_round_trip [of "0x02" "- 300" "[7]"] by simp
qed

text \<open>
  The condition is needed: 32768 decodes to -32768.  Where \<open>char\<close> is signed, 128 decodes to -128.
\<close>

lemma cer_integer_wrong:
  "cer_decode_token False (0x02 # cer_encode_integer 32768) =
     Some (Inr \<lparr>ct_type = 0x02, ct_endpos = 4, ct_int = Some (- 32768), ct_string = None\<rparr>)"
  by code_simp

lemma cer_integer_signed_char:
  "cer_decode_token True (0x02 # cer_encode_integer 128) =
     Some (Inr \<lparr>ct_type = 0x02, ct_endpos = 4, ct_int = Some (- 128), ct_string = None\<rparr>)"
  by code_simp



text \<open>
  A string with a segment that is itself in segments makes the decoder loop: the end position of the inner string
  is 0, so that the same segment is read again.
\<close>

lemma nested_segments_loop:
  assumes "cer_decode_segments s ber tag position acc = Some y"
  shows "\<not> (ber = [0x24, 0x80, 0x24, 0x80, 0, 0, 0, 0] \<and> tag = 0x04 \<and> position = 2 \<and> acc = []) \<and>
    (ber = [0x24, 0x80, 0, 0, 0, 0] \<and> tag = 0x04 \<and> position = 2 \<and> acc = [] \<longrightarrow>
       y = Inr \<lparr>ct_type = 0x04, ct_endpos = 0, ct_int = None, ct_string = Some []\<rparr>)"
proof (rule cer_decode_segments.raw_induct [OF _ assms, where P = "\<lambda>s ber tag position acc y.
    \<not> (ber = [0x24, 0x80, 0x24, 0x80, 0, 0, 0, 0] \<and> tag = 0x04 \<and> position = 2 \<and> acc = []) \<and>
    (ber = [0x24, 0x80, 0, 0, 0, 0] \<and> tag = 0x04 \<and> position = 2 \<and> acc = [] \<longrightarrow>
       y = Inr \<lparr>ct_type = 0x04, ct_endpos = 0, ct_int = None, ct_string = Some []\<rparr>)"], goal_cases)
  case (1 f s ber tag position acc y)
  note step = 1(2) and IH = 1(1)
  have h: "cer_decode_head s [0x24, 0x80, 0, 0, 0, 0] = Inr (Inr (0x04, 2))"
    by (simp add: cer_decode_head_def cer_decode_length_def str_at_def bindE_def kAsn1Universal_def kAsn1Sequence_def
        kAsn1EndSequence_def integer_tags_def string_tags_def)
  show ?case
  proof (intro conjI notI impI; elim conjE)
    assume x: "ber = [0x24, 0x80, 0x24, 0x80, 0, 0, 0, 0]" "tag = 0x04" "position = 2" "acc = []"
    from step obtain r where r: "f s [0x24, 0x80, 0, 0, 0, 0] 0x04 2 [] = Some r"
      unfolding x by (cases "f s [0x24, 0x80, 0, 0, 0, 0] 0x04 2 []") (simp_all add: h)
    with IH [OF r] have "r = Inr \<lparr>ct_type = 0x04, ct_endpos = 0, ct_int = None, ct_string = Some []\<rparr>" by simp
    with step r have "f s [0x24, 0x80, 0x24, 0x80, 0, 0, 0, 0] 0x04 2 [] = Some y"
      unfolding x by (simp add: h kAsn1EndSequence_def)
    from IH [OF this] show False by simp
  next
    assume x: "ber = [0x24, 0x80, 0, 0, 0, 0]" "tag = 0x04" "position = 2" "acc = []"
    from step show "y = Inr \<lparr>ct_type = 0x04, ct_endpos = 0, ct_int = None, ct_string = Some []\<rparr>"
      unfolding x using head_end [of s "[0, 0]"] by (simp add: kAsn1EndSequence_def)
  qed
qed

lemma nested_segments_do_not_return:
  "cer_decode_token s [0x24, 0x80, 0x24, 0x80, 0, 0, 0, 0] = None"
proof -
  have "cer_decode_head s [0x24, 0x80, 0x24, 0x80, 0, 0, 0, 0] = Inr (Inr (0x04, 2))"
    by (simp add: cer_decode_head_def cer_decode_length_def str_at_def bindE_def kAsn1Universal_def kAsn1Sequence_def
        kAsn1EndSequence_def integer_tags_def string_tags_def)
  moreover have "cer_decode_segments s [0x24, 0x80, 0x24, 0x80, 0, 0, 0, 0] 0x04 2 [] = None"
    using nested_segments_loop by (metis not_Some_eq)
  ultimately show ?thesis by (simp add: cer_decode_token_def)
qed

end
