(* ===== verification/F25519.thy ===== *)
theory F25519
  imports Byte_Strings
begin

text \<open>
  The arithmetic modulo \<open>2^255 - 19\<close> under the signature check of the partial-verification client
  (\<open>partial/ed25519/f25519.c\<close>).  A field element is a list of 32 bytes; the carries keep the widths they have in
  the code.
\<close>

unbundle bit_operations_syntax

section \<open>Operations\<close>

definition F25519_SIZE :: nat where "F25519_SIZE = 32"

definition f25519_zero :: octets where "f25519_zero = replicate 32 0"

definition f25519_one :: octets where "f25519_one = 1 # replicate 31 0"

definition f25519_load :: "32 word \<Rightarrow> octets" where
  "f25519_load c = map (\<lambda>i. ucast (drop_bit (8 * i) c)) [0..<4] @ replicate (F25519_SIZE - 4) 0"

text \<open>\<open>c += x[i]; x[i] = c; c >>= 8\<close> over an array: the new bytes and the carry.\<close>

fun carry :: "'a::len word \<Rightarrow> octets \<Rightarrow> octets \<times> 'a word" where
  "carry c [] = ([], c)"
| "carry c (x # xs) =
     (let c = c + ucast x; (ys, c') = carry (drop_bit 8 c) xs in (ucast c # ys, c'))"

definition mask_top :: "octets \<Rightarrow> octets" where
  "mask_top x = x[31 := x ! 31 AND 127]"

definition f25519_select :: "octets \<Rightarrow> octets \<Rightarrow> 8 word \<Rightarrow> octets" where
  "f25519_select zero one condition = map2 (\<lambda>z u. z XOR (- condition AND (u XOR z))) zero one"

definition f25519_normalize :: "octets \<Rightarrow> octets" where
  "f25519_normalize x =
     (let c = ucast (drop_bit 7 (x ! 31)) * 19 :: 16 word;
          x = fst (carry c (mask_top x));
          (low, c) = carry (19 :: 16 word) (take 31 x);
          c = c + (ucast (x ! 31) - 128);
          minusp = low @ [ucast c]
      in f25519_select minusp x (ucast (drop_bit 15 c AND 1)))"

definition f25519_eq :: "octets \<Rightarrow> octets \<Rightarrow> 8 word" where
  "f25519_eq x y =
     (let sum = foldl (\<lambda>s (a, b). s OR (a XOR b)) 0 (zip x y);
          sum = sum OR drop_bit 4 sum;
          sum = sum OR drop_bit 2 sum;
          sum = sum OR drop_bit 1 sum
      in (sum XOR 1) AND 1)"

text \<open>\<open>c >>= 8; c += column; r[i] = c\<close> over the columns of a sum.\<close>

fun columns :: "'a::len word \<Rightarrow> 'a word list \<Rightarrow> octets \<times> 'a word" where
  "columns c [] = ([], c)"
| "columns c (s # ss) =
     (let c = drop_bit 8 c + s; (ys, c') = columns c ss in (ucast c # ys, c'))"

text \<open>The reduction with \<open>2^255 = 19\<close> at the end of every operation.\<close>

definition reduce_top :: "octets \<times> 'a::len word \<Rightarrow> octets" where
  "reduce_top = (\<lambda>(r, c). fst (carry (drop_bit 7 c * 19) (mask_top r)))"

definition f25519_add :: "octets \<Rightarrow> octets \<Rightarrow> octets" where
  "f25519_add a b = reduce_top (columns (0 :: 16 word) (map2 (\<lambda>x y. ucast x + ucast y) a b))"

text \<open>\<open>c += 65280 + a[i] - b[i]; r[i] = c; c >>= 8\<close>\<close>

fun sub_loop :: "32 word \<Rightarrow> (8 word \<times> 8 word) list \<Rightarrow> octets \<times> 32 word" where
  "sub_loop c [] = ([], c)"
| "sub_loop c ((a, b) # ps) =
     (let c = c + (65280 + ucast a - ucast b); (ys, c') = sub_loop (drop_bit 8 c) ps in (ucast c # ys, c'))"

definition f25519_sub :: "octets \<Rightarrow> octets \<Rightarrow> octets" where
  "f25519_sub a b =
     (let (low, c) = sub_loop 218 (zip (take 31 a) (take 31 b));
          c = c + (ucast (a ! 31) - ucast (b ! 31));
          r = low @ [ucast (c AND 127)]
      in fst (carry (drop_bit 7 c * 19) r))"

fun neg_loop :: "32 word \<Rightarrow> octets \<Rightarrow> octets \<times> 32 word" where
  "neg_loop c [] = ([], c)"
| "neg_loop c (a # as) =
     (let c = c + (65280 - ucast a); (ys, c') = neg_loop (drop_bit 8 c) as in (ucast c # ys, c'))"

definition f25519_neg :: "octets \<Rightarrow> octets" where
  "f25519_neg a =
     (let (low, c) = neg_loop 218 (take 31 a);
          c = c - ucast (a ! 31);
          r = low @ [ucast (c AND 127)]
      in fst (carry (drop_bit 7 c * 19) r))"

text \<open>The two inner loops of the multiplication, which add the products of column \<open>i\<close>.\<close>

definition mul_column :: "octets \<Rightarrow> octets \<Rightarrow> nat \<Rightarrow> 32 word" where
  "mul_column a b i =
     foldl (\<lambda>c j. c + ucast (a ! j) * ucast (b ! (i + F25519_SIZE - j)) * 38)
       (foldl (\<lambda>c j. c + ucast (a ! j) * ucast (b ! (i - j))) 0 [0..<i + 1]) [i + 1..<F25519_SIZE]"

definition f25519_mul__distinct :: "octets \<Rightarrow> octets \<Rightarrow> octets" where
  "f25519_mul__distinct a b = reduce_top (columns 0 (map (mul_column a b) [0..<F25519_SIZE]))"

definition f25519_mul :: "octets \<Rightarrow> octets \<Rightarrow> octets" where
  "f25519_mul a b = f25519_mul__distinct a b"

definition f25519_mul_c :: "octets \<Rightarrow> 32 word \<Rightarrow> octets" where
  "f25519_mul_c a b = reduce_top (columns 0 (map (\<lambda>x. b * ucast x) a))"

text \<open>The chains of squarings; \<open>square_times\<close> is one round of their loops.\<close>

definition square_times :: "octets \<Rightarrow> octets \<Rightarrow> octets" where
  "square_times x r = f25519_mul__distinct (f25519_mul__distinct r r) x"

definition f25519_inv__distinct :: "octets \<Rightarrow> octets" where
  "f25519_inv__distinct x =
     (let r = square_times x x;
          r = (square_times x ^^ 248) r;
          s = f25519_mul__distinct r r;
          r = f25519_mul__distinct s s;
          s = f25519_mul__distinct r x;
          r = f25519_mul__distinct s s;
          s = f25519_mul__distinct r r;
          r = f25519_mul__distinct s x;
          s = f25519_mul__distinct r r
      in f25519_mul__distinct s x)"

definition f25519_inv :: "octets \<Rightarrow> octets" where
  "f25519_inv x = f25519_inv__distinct x"

definition exp2523 :: "octets \<Rightarrow> octets" where
  "exp2523 x =
     (let s = square_times x x;
          s = (square_times x ^^ 248) s;
          r = f25519_mul__distinct s s;
          s = f25519_mul__distinct r r
      in f25519_mul__distinct s x)"

definition f25519_sqrt :: "octets \<Rightarrow> octets" where
  "f25519_sqrt a =
     (let x = f25519_mul_c a 2;
          v = exp2523 x;
          y = f25519_mul__distinct v v;
          i = f25519_mul__distinct x y;
          y = f25519_load 1;
          i = f25519_sub i y;
          x = f25519_mul__distinct v a
      in f25519_mul__distinct x i)"

section \<open>Carries\<close>

definition p25519 :: int where "p25519 = 2 ^ 255 - 19"

lemma shifted_small:
  assumes "16 \<le> LENGTH('a)"
  shows "uint (c :: 'a::len word) div 256 + 255 < 2 ^ LENGTH('a)"
proof -
  have "uint c div 256 \<le> (2 ^ LENGTH('a) - 1) div 256" by (intro zdiv_mono1) (use uint_bounded [of c] in linarith, simp)
  moreover have "(2 :: int) ^ 16 \<le> 2 ^ LENGTH('a)" using assms by (intro power_increasing) simp_all
  ultimately show ?thesis by simp
qed

lemma carry_value:
  assumes "16 \<le> LENGTH('a)" and "uint (c :: 'a::len word) + 255 < 2 ^ LENGTH('a)" and "carry c xs = (ys, c')"
  shows "length ys = length xs \<and> le_value ys + 256 ^ length xs * uint c' = uint c + le_value xs"
  using assms(2,3)
proof (induction xs arbitrary: c ys)
  case (Cons x xs)
  obtain zs where z: "carry (drop_bit 8 (c + ucast x)) xs = (zs, c')" "ys = ucast (c + ucast x) # zs"
    using Cons.prems(2) by (auto simp: Let_def split: prod.splits)
  have u: "uint (c + ucast x) = uint c + uint x"
    using Cons.prems(1) assms(1) byte_bound(2) [of x] by (subst uint_add_small) (simp_all add: uint_ucast_byte)
  have s: "uint (drop_bit 8 (c + ucast x)) + 255 < 2 ^ LENGTH('a)"
    unfolding uint_shift_byte by (rule shifted_small [OF assms(1)])
  from Cons.IH [OF s z(1)] have IH: "length zs = length xs"
    "le_value zs + 256 ^ length xs * uint c' = (uint c + uint x) div 256 + le_value xs"
    unfolding uint_shift_byte u by simp_all
  have "uint (ucast (c + ucast x) :: 8 word) = (uint c + uint x) mod 256" using assms(1) u by (simp add: uint_low_byte)
  then have "le_value ys + 256 ^ length (x # xs) * uint c' =
      (uint c + uint x) mod 256 + 256 * (le_value zs + 256 ^ length xs * uint c')"
    by (simp add: z(2) algebra_simps)
  also have "\<dots> = uint c + le_value (x # xs)" unfolding IH(2) by (simp add: algebra_simps)
  finally show ?case using IH(1) z(2) by simp
qed simp

fun columns_value :: "'a::len word list \<Rightarrow> int" where
  "columns_value [] = 0"
| "columns_value (s # ss) = uint s + 256 * columns_value ss"

lemma columns_sum:
  assumes "16 \<le> LENGTH('a)" and "\<forall>s \<in> set ss. uint (s :: 'a::len word) + 2 ^ (LENGTH('a) - 8) \<le> 2 ^ LENGTH('a)" and "columns c ss = (ys, c')"
  shows "length ys = length ss \<and> le_value ys + 256 ^ length ss * (uint c' div 256) = uint c div 256 + columns_value ss \<and>
    (ss \<noteq> [] \<longrightarrow> last ys = ucast c')"
  using assms(2,3)
proof (induction ss arbitrary: c ys)
  case (Cons s ss)
  let ?c = "drop_bit 8 c + s"
  obtain zs where z: "columns ?c ss = (zs, c')" "ys = ucast ?c # zs"
    using Cons.prems(2) by (auto simp: Let_def split: prod.splits)
  have "(2 :: int) ^ LENGTH('a) = 256 * 2 ^ (LENGTH('a) - 8)"
    using assms(1) power_add [of "2 :: int" 8 "LENGTH('a) - 8"] by simp
  then have "uint c div 256 < 2 ^ (LENGTH('a) - 8)" using uint_bounded [of c] by simp
  then have u: "uint ?c = uint c div 256 + uint s"
    using Cons.prems(1) by (subst uint_add_small) (simp_all add: uint_shift_byte)
  from Cons.IH [OF _ z(1)] Cons.prems(1) have IH: "length zs = length ss"
    "le_value zs + 256 ^ length ss * (uint c' div 256) = (uint c div 256 + uint s) div 256 + columns_value ss"
    "ss \<noteq> [] \<longrightarrow> last zs = ucast c'"
    unfolding u by simp_all
  have "uint (ucast ?c :: 8 word) = (uint c div 256 + uint s) mod 256" using assms(1) u by (simp add: uint_low_byte)
  then have "le_value ys + 256 ^ length (s # ss) * (uint c' div 256) =
      (uint c div 256 + uint s) mod 256 + 256 * (le_value zs + 256 ^ length ss * (uint c' div 256))"
    by (simp add: z(2) algebra_simps)
  also have "\<dots> = uint c div 256 + columns_value (s # ss)" unfolding IH(2) by (simp add: algebra_simps)
  finally have "le_value ys + 256 ^ length (s # ss) * (uint c' div 256) = uint c div 256 + columns_value (s # ss)" .
  moreover have "last ys = ucast c'" using z IH(1,3) by (cases ss) auto
  ultimately show ?case using IH(1) z(2) by simp
qed simp

section \<open>Reduction\<close>

lemma uint_and_127: "uint (c AND 127 :: 'a::len word) = uint c mod 128" if "7 \<le> LENGTH('a)"
proof -
  have "c AND 127 = take_bit 7 c" by (simp add: take_bit_eq_mask mask_eq_exp_minus_1)
  then have "uint (c AND 127) = take_bit 7 (uint c)" using that by (simp only: unsigned_take_bit_eq)
  then show ?thesis by (simp add: take_bit_eq_mod)
qed

lemma uint_shift_7: "uint (drop_bit 7 (c :: 'a::len word)) = uint c div 128"
  by (simp only: unsigned_drop_bit_eq) (simp add: drop_bit_eq_div take_bit_int_eq_self uint_bounded)

lemma power2_numerals: "(2 :: int) ^ 24 = 16777216" "(2 :: int) ^ 32 = 4294967296"
  by simp_all

lemma mask_top_snoc: "length r = 31 \<Longrightarrow> mask_top (r @ [b]) = r @ [b AND 127]"
  by (simp add: mask_top_def nth_append list_update_append)

lemma p25519_value: "256 ^ 31 * 128 = p25519 + 19" "p25519 = 57896044618658097711785492504343953926634992332820282019728792003956564819949"
  by (simp_all add: p25519_def)

text \<open>The last carry replaces \<open>c div 128\<close> times \<open>2^255\<close> by as many times 19.\<close>

lemma reduce_value:
  assumes l: "length r = 31" and L: "16 \<le> LENGTH('a)" "LENGTH('a) \<le> 32" and t: "uint t = uint c mod 128"
  defines "x \<equiv> fst (carry (drop_bit 7 c * 19 :: 'a::len word) (r @ [t]))"
  shows "length x = 32" and "le_value x = le_value r + 256 ^ 31 * uint c - p25519 * (uint c div 128)"
    and "le_value x < 2 * p25519"
proof -
  obtain c' where x: "carry (drop_bit 7 c * 19 :: 'a::len word) (r @ [t]) = (x, c')"
    by (simp add: x_def prod_eq_iff)
  have b: "(2 :: int) ^ 16 \<le> 2 ^ LENGTH('a)" "(2 :: int) ^ LENGTH('a) \<le> 2 ^ 32"
    using L power_increasing [of 16 "LENGTH('a)" "2 :: int"] power_increasing [of "LENGTH('a)" 32 "2 :: int"] by simp_all
  have n: "take_bit LENGTH('a) (19 :: int) = 19" using b(1) by (simp add: take_bit_int_eq_self)
  have c: "0 \<le> uint c div 128" "uint c div 128 * 128 < 2 ^ LENGTH('a)" "uint c mod 128 \<le> 127"
    subgoal by (simp add: pos_imp_zdiv_nonneg_iff)
    subgoal using uint_bounded [of c] div_mult_mod_eq [of "uint c" 128] pos_mod_sign [of 128 "uint c"] by linarith
    subgoal using pos_mod_bound [of 128 "uint c"] by linarith
    done
  then have m: "uint c div 128 * 19 + 255 < 2 ^ LENGTH('a)" using b(1) by simp
  then have u: "uint (drop_bit 7 c * 19 :: 'a word) = uint c div 128 * 19"
    by (subst uint_mult_small) (simp_all add: n uint_shift_7)
  have "length x = 32 \<and> le_value x + 256 ^ 32 * uint c' = uint c div 128 * 19 + le_value (r @ [t])"
    using carry_value [OF L(1) _ x] m by (simp add: l u)
  then have v: "length x = 32" "le_value x + 256 ^ 32 * uint c' = uint c div 128 * 19 + le_value r + 256 ^ 31 * (uint c mod 128)"
    by (simp_all add: le_value_append l t)
  have "le_value r < 256 ^ 31" using le_value_bound(2) [of r] by (simp add: l)
  then have s: "uint c div 128 * 19 + le_value r + 256 ^ 31 * (uint c mod 128) < 2 * p25519"
    using b c by (simp add: p25519_value(2))
  then have "uint c' < 1" using v(2) le_value_bound(1) [of x] by (simp add: p25519_value(2))
  then have "uint c' = 0" using uint_ge_0 [of c'] by linarith
  with v s show "length x = 32" "le_value x < 2 * p25519" by simp_all
  from v(2) \<open>uint c' = 0\<close> show "le_value x = le_value r + 256 ^ 31 * uint c - p25519 * (uint c div 128)"
    using digit_split [of "256 ^ 31" "uint c" 128] by (simp add: p25519_value(2))
qed

lemma reduce_columns:
  assumes L: "16 \<le> LENGTH('a)" "LENGTH('a) \<le> 32" and n: "length ss = 32"
    and s: "\<forall>s \<in> set ss. uint (s :: 'a::len word) + 2 ^ (LENGTH('a) - 8) \<le> 2 ^ LENGTH('a)"
  defines "x \<equiv> reduce_top (columns 0 ss)"
  shows "length x = 32" and "le_value x < 2 * p25519" and "le_value x mod p25519 = columns_value ss mod p25519"
proof -
  obtain ys c where y: "columns 0 ss = (ys, c)" by fastforce
  note v = columns_sum [OF L(1) s y]
  then obtain r where r: "ys = r @ [ucast c]" "length r = 31" using n by (cases ys rule: rev_cases) auto
  have x: "x = fst (carry (drop_bit 7 c * 19) (r @ [ucast c AND 127]))"
    by (simp add: x_def y reduce_top_def r mask_top_snoc)
  have t: "uint (ucast c AND 127 :: 8 word) = uint c mod 128"
    using L(1) by (simp add: uint_and_127 uint_low_byte mod_mod_cancel)
  note q = reduce_value [OF r(2) L t, folded x]
  show "length x = 32" "le_value x < 2 * p25519" by (fact q)+
  have "columns_value ss = le_value r + 256 ^ 31 * (uint c mod 256) + 256 ^ 32 * (uint c div 256)"
    using v L(1) n unfolding r(1) by (simp add: le_value_append r(2) uint_low_byte)
  then have "columns_value ss = le_value r + 256 ^ 31 * uint c"
    using digit_split [of "256 ^ 31" "uint c" 256] by simp
  then show "le_value x mod p25519 = columns_value ss mod p25519" by (simp add: q(2) mod_diff_eq [symmetric])
qed

section \<open>Ring operations\<close>

text \<open>A field element as the operations return it: 32 bytes whose value is below \<open>2 p\<close>.\<close>

definition field_element :: "octets \<Rightarrow> bool" where
  "field_element x \<longleftrightarrow> length x = 32 \<and> le_value x < 2 * p25519"

definition field_value :: "octets \<Rightarrow> int" where "field_value x = le_value x mod p25519"

lemma columns_add:
  "length a = length b \<Longrightarrow> columns_value (map2 (\<lambda>x y. ucast x + ucast y :: 16 word) a b) = le_value a + le_value b"
proof (induction a b rule: list_induct2)
  case (Cons x xs y ys)
  have "uint (ucast x + ucast y :: 16 word) = uint x + uint y"
    using byte_bound [of x] byte_bound [of y] by (subst uint_add_small) (simp_all add: uint_ucast_byte)
  with Cons.IH show ?case by simp
qed simp

lemma sum_column_bound: "uint (ucast (x :: 8 word) + ucast (y :: 8 word) :: 16 word) + 2 ^ 8 \<le> 2 ^ 16"
  using byte_bound [of x] byte_bound [of y] by (subst uint_add_small) (simp_all add: uint_ucast_byte)

lemma add_value:
  assumes "length a = 32" "length b = 32"
  shows "field_element (f25519_add a b)" and "field_value (f25519_add a b) = (le_value a + le_value b) mod p25519"
proof -
  have "\<forall>s \<in> set (map2 (\<lambda>x y. ucast x + ucast y :: 16 word) a b). uint s + 2 ^ (LENGTH(16) - 8) \<le> 2 ^ LENGTH(16)"
    using sum_column_bound by (auto simp del: uint_ucast_byte)
  note r = reduce_columns [OF _ _ _ this]
  show "field_element (f25519_add a b)" "field_value (f25519_add a b) = (le_value a + le_value b) mod p25519"
    using r assms columns_add [of a b] by (simp_all add: field_element_def field_value_def f25519_add_def)
qed

lemma columns_scale:
  assumes "uint b < 2 ^ 24"
  shows "columns_value (map (\<lambda>x. b * ucast x :: 32 word) a) = uint b * le_value a"
    and "\<forall>s \<in> set (map (\<lambda>x. b * ucast x :: 32 word) a). uint s + 2 ^ 24 \<le> 2 ^ 32"
proof -
  have m: "uint b * uint x \<le> 2 ^ 32 - 2 ^ 24" for x :: "8 word"
    using mult_mono [of "uint b" "2 ^ 24" "uint x" 255] assms byte_bound [of x] by simp
  have u: "uint (b * ucast x :: 32 word) = uint b * uint x" for x :: "8 word"
    using m [of x] by (subst uint_mult_small) (simp_all add: uint_ucast_byte)
  show "columns_value (map (\<lambda>x. b * ucast x :: 32 word) a) = uint b * le_value a"
    by (induction a) (simp_all add: u algebra_simps)
  show "\<forall>s \<in> set (map (\<lambda>x. b * ucast x :: 32 word) a). uint s + 2 ^ 24 \<le> 2 ^ 32"
    using m by (auto simp: u algebra_simps)
qed

lemma mul_c_value:
  assumes "length a = 32" and "uint b < 2 ^ 24"
  shows "field_element (f25519_mul_c a b)" and "field_value (f25519_mul_c a b) = uint b * le_value a mod p25519"
  using reduce_columns [of "map (\<lambda>x. b * ucast x :: 32 word) a"] columns_scale [OF assms(2), of a] assms(1)
  by (simp_all add: field_element_def field_value_def f25519_mul_c_def)

lemma sub_loop_value:
  assumes "uint c < 2 ^ 24" and "sub_loop c (zip as bs) = (ys, c')" and "length as = length bs"
  shows "length ys = length as \<and> uint c' < 2 ^ 24 \<and>
    le_value ys + 256 ^ length as * uint c' = uint c + 256 * (256 ^ length as - 1) + le_value as - le_value bs"
  using assms(3,1,2)
proof (induction as bs arbitrary: c ys rule: list_induct2)
  case (Cons a as b bs)
  let ?c = "c + (65280 + ucast a - ucast b)"
  obtain zs where z: "sub_loop (drop_bit 8 ?c) (zip as bs) = (zs, c')" "ys = ucast ?c # zs"
    using Cons.prems(2) by (auto simp: Let_def split: prod.splits)
  note ab = byte_bound [of a] byte_bound [of b]
  from ab have le: "uint b \<le> 65280 + uint a" and d: "uint a - uint b < 256" by linarith+
  have "uint (65280 + ucast a :: 32 word) = 65280 + uint a"
    using ab by (subst uint_add_small) (simp_all add: uint_ucast_byte)
  then have "uint (65280 + ucast a - ucast b :: 32 word) = 65280 + uint a - uint b"
    using le uint_diff_small [of "ucast b" "65280 + ucast a :: 32 word"] by (simp add: uint_ucast_byte)
  then have u: "uint ?c = uint c + 65280 + uint a - uint b"
    using le d Cons.prems(1) by (subst uint_add_small) simp_all
  have s: "uint (drop_bit 8 ?c) < 2 ^ 24" using uint_bounded [of ?c] by (simp add: uint_shift_byte)
  from Cons.IH [OF s z(1)] have IH: "length zs = length as" "uint c' < 2 ^ 24"
    "le_value zs + 256 ^ length as * uint c' = uint ?c div 256 + 256 * (256 ^ length as - 1) + le_value as - le_value bs"
    by (simp_all add: uint_shift_byte)
  have "uint (ucast ?c :: 8 word) = uint ?c mod 256" by (simp add: uint_low_byte)
  then have "le_value ys + 256 ^ length (a # as) * uint c' =
      uint ?c mod 256 + 256 * (le_value zs + 256 ^ length as * uint c')" by (simp add: z(2) algebra_simps)
  also have "\<dots> = uint ?c + 256 * (256 * (256 ^ length as - 1) + le_value as - le_value bs)"
    unfolding IH(3) by (simp add: algebra_simps)
  also have "\<dots> = uint c + 256 * (256 ^ length (a # as) - 1) + le_value (a # as) - le_value (b # bs)"
    unfolding u by (simp add: algebra_simps)
  finally show ?case using IH(1,2) z(2) by simp
qed simp

lemma sub_value:
  assumes "length a = 32" and b: "field_element b"
  shows "field_element (f25519_sub a b)" and "field_value (f25519_sub a b) = (le_value a - le_value b) mod p25519"
proof -
  have lb: "length b = 32" "le_value b < 2 * p25519" using b by (simp_all add: field_element_def)
  have s: "x = take 31 x @ [x ! 31]" if "length x = 32" for x :: octets
    using that take_Suc_conv_app_nth [of 31 x] by simp
  have va: "le_value a = le_value (take 31 a) + 256 ^ 31 * uint (a ! 31)"
    using le_value_append [of "take 31 a" "[a ! 31]"] s [OF assms(1)] assms(1) by simp
  have vb: "le_value b = le_value (take 31 b) + 256 ^ 31 * uint (b ! 31)"
    using le_value_append [of "take 31 b" "[b ! 31]"] s [OF lb(1)] lb(1) by simp
  obtain low c where l: "sub_loop 218 (zip (take 31 a) (take 31 b)) = (low, c)" by fastforce
  have v: "length low = 31" "uint c < 2 ^ 24"
    "le_value low + 256 ^ 31 * uint c = 2 * p25519 + le_value (take 31 a) - le_value (take 31 b)"
    using sub_loop_value [OF _ l] assms(1) lb(1) by (simp_all add: p25519_value(2))
  let ?c = "c + (ucast (a ! 31) - ucast (b ! 31))"
  note ab = byte_bound [of "a ! 31"] byte_bound [of "b ! 31"]
  have t: "le_value low + 256 ^ 31 * (uint c + uint (a ! 31) - uint (b ! 31)) = 2 * p25519 + le_value a - le_value b"
    using v(3) va vb by (simp add: algebra_simps)
  moreover have "le_value low < 256 ^ 31" using le_value_bound(2) [of low] v(1) by simp
  ultimately have "0 \<le> uint c + uint (a ! 31) - uint (b ! 31)"
    using lb(2) le_value_bound(1) [of a] by (simp add: p25519_value(2))
  then have "(uint c + uint (a ! 31) - uint (b ! 31)) mod 2 ^ 32 = uint c + uint (a ! 31) - uint (b ! 31)"
    using v(2) ab(2,3) by (intro mod_pos_pos_trivial) (assumption, unfold power2_numerals, linarith)
  then have u: "uint ?c = uint c + uint (a ! 31) - uint (b ! 31)"
    by (simp add: uint_word_ariths(1,2) uint_ucast_byte mod_simps algebra_simps)
  have m: "uint (ucast (?c AND 127) :: 8 word) = uint ?c mod 128"
    by (simp add: uint_and_127 uint_low_byte)
  have x: "f25519_sub a b = fst (carry (drop_bit 7 ?c * 19) (low @ [ucast (?c AND 127)]))"
    by (simp add: f25519_sub_def l Let_def)
  note q = reduce_value [OF v(1) _ _ m, folded x]
  show "field_element (f25519_sub a b)" using q(1,3) by (simp add: field_element_def)
  have "le_value (f25519_sub a b) = (le_value a - le_value b) + p25519 * (2 - uint ?c div 128)"
    using q(2) t unfolding u by (simp add: algebra_simps)
  then show "field_value (f25519_sub a b) = (le_value a - le_value b) mod p25519"
    by (simp add: field_value_def)
qed

text \<open>The negation is the subtraction from zero.\<close>

lemma neg_loop_sub: "neg_loop c as = sub_loop c (zip (replicate (length as) 0) as)"
  by (induction as arbitrary: c) (simp_all add: Let_def)

lemma neg_is_sub: "length a = 32 \<Longrightarrow> f25519_neg a = f25519_sub f25519_zero a"
  by (simp add: f25519_neg_def f25519_sub_def neg_loop_sub f25519_zero_def take_Cons')

lemma neg_value:
  assumes "field_element a"
  shows "field_element (f25519_neg a)" and "field_value (f25519_neg a) = (- le_value a) mod p25519"
proof -
  have l: "length a = 32" using assms by (simp add: field_element_def)
  show "field_element (f25519_neg a)" "field_value (f25519_neg a) = (- le_value a) mod p25519"
    using sub_value [of f25519_zero, OF _ assms] le_value_zero [of 32]
    by (simp_all add: neg_is_sub [OF l] f25519_zero_def)
qed

subsection \<open>Multiplication\<close>

lemma foldl_add_value:
  assumes "uint w + (\<Sum>j \<leftarrow> js. g j) < 2 ^ LENGTH('a)" and "\<And>j. j \<in> set js \<Longrightarrow> uint (f j) = g j"
  shows "uint (foldl (\<lambda>c j. c + f j) (w :: 'a::len word) js) = uint w + (\<Sum>j \<leftarrow> js. g j)"
  using assms
proof (induction js arbitrary: w)
  case (Cons j js)
  have n: "0 \<le> (\<Sum>j \<leftarrow> js. g j)" using Cons.prems(2) by (intro sum_list_nonneg) (auto simp flip: Cons.prems(2))
  have g: "uint (f j) = g j" using Cons.prems(2) by simp
  have u: "uint (w + f j) = uint w + g j"
    using Cons.prems(1) n by (subst uint_add_small) (simp_all add: g)
  show ?case using Cons.IH [of "w + f j"] Cons.prems by (simp add: u algebra_simps)
qed simp

lemma product_small: "uint (ucast (x :: 8 word) * ucast (y :: 8 word) :: 32 word) = uint x * uint y"
  "uint (ucast x * ucast y * 38 :: 32 word) = uint x * uint y * 38" "uint x * uint y \<le> 65025"
proof -
  show m: "uint x * uint y \<le> 65025" using mult_mono [of "uint x" 255 "uint y" 255] byte_bound [of x] byte_bound [of y] by simp
  show u: "uint (ucast x * ucast y :: 32 word) = uint x * uint y"
    using m by (subst uint_mult_small) (simp_all add: uint_ucast_byte)
  show "uint (ucast x * ucast y * 38 :: 32 word) = uint x * uint y * 38"
    using m by (subst uint_mult_small) (simp_all add: u)
qed

text \<open>Column \<open>i\<close> as a sum over the bytes of the first factor.\<close>

definition mul_term :: "octets \<Rightarrow> octets \<Rightarrow> nat \<Rightarrow> nat \<Rightarrow> int" where
  "mul_term a b i j = uint (a ! j) * (if j \<le> i then uint (b ! (i - j)) else uint (b ! (i + 32 - j)) * 38)"

lemma mul_term_bound: "mul_term a b i j \<le> 65025 * 38" "0 \<le> mul_term a b i j"
  using product_small(3) [of "a ! j" "b ! (i - j)"] product_small(3) [of "a ! j" "b ! (i + 32 - j)"]
  by (simp_all add: mul_term_def)

lemma mul_column_value:
  assumes "i < 32"
  shows "uint (mul_column a b i) = (\<Sum>j<32. mul_term a b i j)" and "uint (mul_column a b i) \<le> 32 * (65025 * 38)"
proof -
  let ?u = "foldl (\<lambda>c j. c + ucast (a ! j) * ucast (b ! (i - j))) (0 :: 32 word) [0..<i + 1]"
  have s: "(\<Sum>j \<leftarrow> [0..<i + 1]. mul_term a b i j) + (\<Sum>j \<leftarrow> [i + 1..<32]. mul_term a b i j) = (\<Sum>j<32. mul_term a b i j)"
  proof -
    have "[0..<32] = [0..<i + 1] @ [i + 1..<32]" using assms upt_add_eq_append [of 0 "i + 1" "31 - i"] by simp
    then have "(\<Sum>j \<leftarrow> [0..<32]. mul_term a b i j) = (\<Sum>j \<leftarrow> [0..<i + 1]. mul_term a b i j) + (\<Sum>j \<leftarrow> [i + 1..<32]. mul_term a b i j)"
      by (simp only: map_append sum_list_append)
    then show ?thesis by (simp only: interv_sum_list_conv_sum_set_nat lessThan_atLeast0 set_upt)
  qed
  have n: "0 \<le> (\<Sum>j \<leftarrow> [i + 1..<32]. mul_term a b i j)" by (intro sum_list_nonneg) (auto simp: mul_term_bound)
  have b: "(\<Sum>j<32. mul_term a b i j) \<le> 32 * (65025 * 38)"
    using sum_bounded_above [of "{..<32 :: nat}" "mul_term a b i" "65025 * 38"] mul_term_bound(1) by simp
  have e: "uint (ucast (a ! j) * ucast (b ! (i - j)) :: 32 word) = mul_term a b i j" if "j \<in> set [0..<i + 1]" for j
    using that by (simp only: mul_term_def product_small) auto
  have e': "uint (ucast (a ! j) * ucast (b ! (i + 32 - j)) * 38 :: 32 word) = mul_term a b i j" if "j \<in> set [i + 1..<32]" for j
    using that by (simp add: mul_term_def product_small)
  have "uint (0 :: 32 word) + (\<Sum>j \<leftarrow> [0..<i + 1]. mul_term a b i j) < 2 ^ LENGTH(32)" using s n b by simp
  from foldl_add_value [OF this e] have u: "uint ?u = (\<Sum>j \<leftarrow> [0..<i + 1]. mul_term a b i j)" by simp
  have "uint ?u + (\<Sum>j \<leftarrow> [i + 1..<32]. mul_term a b i j) < 2 ^ LENGTH(32)" unfolding u using s b by simp
  from foldl_add_value [OF this e'] show v: "uint (mul_column a b i) = (\<Sum>j<32. mul_term a b i j)"
    unfolding u s mul_column_def F25519_SIZE_def .
  show "uint (mul_column a b i) \<le> 32 * (65025 * 38)" using v b by simp
qed

lemma le_value_sum: "le_value x = (\<Sum>i<length x. uint (x ! i) * 256 ^ i)"
  by (induction x) (simp_all add: sum.lessThan_Suc_shift sum_distrib_left mult.left_commute del: sum.lessThan_Suc)

lemma columns_value_sum: "columns_value x = (\<Sum>i<length x. uint (x ! i) * 256 ^ i)"
  by (induction x) (simp_all add: sum.lessThan_Suc_shift sum_distrib_left mult.left_commute del: sum.lessThan_Suc)

text \<open>For a fixed \<open>j\<close> the columns meet every byte of the second factor once, shifted cyclically.\<close>

lemma shifted_sum:
  assumes "j < 32"
  shows "(\<Sum>i<32. if j \<le> i then f (i - j) else f (i + 32 - j)) = (\<Sum>k<32::nat. f k :: int)"
  using assms
  by (intro sum.reindex_bij_witness [of _ "\<lambda>k. if k + j < 32 then k + j else k + j - 32" "\<lambda>i. if j \<le> i then i - j else i + 32 - j"]) auto

lemma term_congruent:
  assumes "j < 32"
  shows "p25519 dvd mul_term a b i j * 256 ^ i -
    uint (a ! j) * 256 ^ j * (if j \<le> i then uint (b ! (i - j)) * 256 ^ (i - j) else uint (b ! (i + 32 - j)) * 256 ^ (i + 32 - j))"
proof (cases "j \<le> i")
  case True
  then have "(256 :: int) ^ i = 256 ^ j * 256 ^ (i - j)" by (simp flip: power_add)
  with True show ?thesis by (simp add: mul_term_def)
next
  case False
  have "(256 :: int) ^ j * 256 ^ (i + 32 - j) = 256 ^ i * 256 ^ 32" using assms by (simp only: power_add [symmetric]) simp
  then have "256 ^ j * 256 ^ (i + 32 - j) = 256 ^ i * (2 * p25519 + 38)" by (simp add: p25519_value(2))
  then have "mul_term a b i j * 256 ^ i - uint (a ! j) * 256 ^ j * (uint (b ! (i + 32 - j)) * 256 ^ (i + 32 - j)) =
    p25519 * (- 2 * uint (a ! j) * uint (b ! (i + 32 - j)) * 256 ^ i)"
    using False by (simp add: mul_term_def algebra_simps)
  with False show ?thesis by simp
qed

lemma columns_mul:
  assumes "length a = 32" and "length b = 32"
  shows "columns_value (map (mul_column a b) [0..<32]) mod p25519 = le_value a * le_value b mod p25519"
proof -
  let ?f = "\<lambda>i j. uint (a ! j) * 256 ^ j * (if j \<le> i then uint (b ! (i - j)) * 256 ^ (i - j) else uint (b ! (i + 32 - j)) * 256 ^ (i + 32 - j))"
  have "columns_value (map (mul_column a b) [0..<32]) = (\<Sum>i<32. \<Sum>j<32. mul_term a b i j * 256 ^ i)"
    unfolding columns_value_sum by (intro sum.cong) (simp_all add: mul_column_value(1) sum_distrib_right)
  moreover have "le_value a * le_value b = (\<Sum>i<32. \<Sum>j<32. ?f i j)"
  proof -
    have "(\<Sum>i<32. \<Sum>j<32. ?f i j) = (\<Sum>j<32. \<Sum>i<32. ?f i j)" by (rule sum.swap)
    also have "\<dots> = (\<Sum>j<32. uint (a ! j) * 256 ^ j * (\<Sum>k<32. uint (b ! k) * 256 ^ k))"
      using shifted_sum [of _ "\<lambda>k. uint (b ! k) * 256 ^ k"]
      by (intro sum.cong) (simp_all only: sum_distrib_left [symmetric] lessThan_iff)
    finally show ?thesis by (simp only: le_value_sum [of a] le_value_sum [of b] assms sum_distrib_right)
  qed
  ultimately have "columns_value (map (mul_column a b) [0..<32]) - le_value a * le_value b =
      (\<Sum>i<32. \<Sum>j<32. mul_term a b i j * 256 ^ i - ?f i j)"
    by (simp only: sum_subtractf)
  moreover have "p25519 dvd \<dots>" by (intro dvd_sum term_congruent) simp
  ultimately show ?thesis by (simp only: mod_eq_dvd_iff)
qed

lemma mul_value:
  assumes "length a = 32" and "length b = 32"
  shows "field_element (f25519_mul__distinct a b)"
    and "field_value (f25519_mul__distinct a b) = le_value a * le_value b mod p25519"
proof -
  have "\<forall>s \<in> set (map (mul_column a b) [0..<32]). uint s + 2 ^ (LENGTH(32) - 8) \<le> 2 ^ LENGTH(32)"
    using mul_column_value(2) [of _ a b] by force
  note r = reduce_columns [OF _ _ _ this]
  show "field_element (f25519_mul__distinct a b)"
    "field_value (f25519_mul__distinct a b) = le_value a * le_value b mod p25519"
    using r columns_mul [OF assms]
    by (simp_all add: field_element_def field_value_def f25519_mul__distinct_def F25519_SIZE_def del: upt_rec_numeral)
qed

section \<open>Selection, normal form and comparison\<close>

lemma select_value:
  assumes "length a = length b"
  shows "f25519_select a b 0 = a" and "f25519_select a b 1 = b"
  unfolding f25519_select_def using assms
  by (induction a b rule: list_induct2) (simp_all add: xor_cancel)

lemma sign_bit: "- 129 < m \<Longrightarrow> m < 128 \<Longrightarrow> odd (m mod 65536 div 32768) \<longleftrightarrow> \<not> 0 \<le> (m :: int)"
proof (cases "0 \<le> m")
  case False
  moreover assume "- 129 < m"
  ultimately have "(m + 65536) mod 65536 = m + 65536" "(m + 65536) div 32768 = 1"
    by (intro mod_pos_pos_trivial, simp_all)
  with False show ?thesis by simp
qed simp

lemma top_bit: "ucast (drop_bit 15 (c :: 16 word) AND 1) = (if odd (uint c div 2 ^ 15) then 1 else 0 :: 8 word)"
proof -
  have "bit (uint c) 15 \<longleftrightarrow> bit c 15" by (simp add: bit_uint_iff)
  then have "odd (uint c div 2 ^ 15) \<longleftrightarrow> bit c 15" unfolding bit_iff_odd [of "uint c"] .
  then show ?thesis
    by (intro bit_word_eqI, goal_cases) (case_tac n, auto simp: bit_simps bit_1_iff)
qed

lemma normalize_value:
  assumes l: "length x = 32"
  shows "length (f25519_normalize x) = 32" and "le_value (f25519_normalize x) = le_value x mod p25519"
proof -
  let ?t = "ucast (x ! 31) :: 16 word"
  define y where "y = fst (carry (drop_bit 7 ?t * 19) (take 31 x @ [x ! 31 AND 127]))"
  have s: "z = take 31 z @ [z ! 31]" if "length z = 32" for z :: octets
    using that take_Suc_conv_app_nth [of 31 z] by simp
  have sv: "le_value z = le_value (take 31 z) + 256 ^ 31 * uint (z ! 31)" if "length z = 32" for z
    using le_value_append [of "take 31 z" "[z ! 31]"] s [OF that] that by simp
  have "uint (x ! 31 AND 127) = uint ?t mod 128" by (simp add: uint_and_127 uint_ucast_byte)
  note y = reduce_value [OF _ _ _ this, of "take 31 x", folded y_def]
  have ly: "length y = 32" and vy: "le_value y = le_value x - p25519 * (uint (x ! 31) div 128)" and yb: "le_value y < 2 * p25519"
    using y l sv [OF l] by (simp_all add: uint_ucast_byte)
  obtain low c where c: "carry (19 :: 16 word) (take 31 y) = (low, c)" by fastforce
  have v: "length low = 31" "le_value low + 256 ^ 31 * uint c = 19 + le_value (take 31 y)"
    using carry_value [OF _ _ c] ly by simp_all
  let ?m = "uint c + uint (y ! 31) - 128" and ?c = "c + (ucast (y ! 31) - 128)"
  have e: "f25519_normalize x = f25519_select (low @ [ucast ?c]) y (ucast (drop_bit 15 ?c AND 1))"
  proof -
    have "mask_top x = take 31 x @ [x ! 31 AND 127]" using mask_top_snoc [of "take 31 x" "x ! 31"] s [OF l] l by simp
    moreover have "ucast (drop_bit 7 (x ! 31)) = drop_bit 7 ?t"
      by (rule bit_word_eqI) (auto simp: bit_simps dest: bit_imp_le_length)
    ultimately show ?thesis by (simp add: f25519_normalize_def c y_def [symmetric] Let_def)
  qed
  have t: "le_value low + 256 ^ 31 * ?m = le_value y - p25519"
    using v(2) sv [OF ly] by (simp add: p25519_value(2) algebra_simps)
  have "le_value low < 256 ^ 31" using le_value_bound(2) [of low] v(1) by simp
  then have m: "?m < 128" "- 129 < ?m" "0 \<le> ?m \<longleftrightarrow> p25519 \<le> le_value y"
    using t le_value_bound(1) [of low] le_value_bound(1) [of y] yb by (simp_all add: p25519_value(2), linarith)
  have u: "uint ?c = ?m mod 2 ^ 16"
  proof -
    have "uint ?c = (uint c + (uint (ucast (y ! 31) :: 16 word) - uint (128 :: 16 word)) mod 2 ^ LENGTH(16)) mod 2 ^ LENGTH(16)"
      by (simp only: uint_word_ariths(1,2))
    then show ?thesis by (simp add: uint_ucast_byte mod_add_right_eq add_diff_eq)
  qed
  have "ucast (drop_bit 15 ?c AND 1) = (if 0 \<le> ?m then 0 else 1 :: 8 word)"
  proof -
    have "odd (uint ?c div 2 ^ 15) \<longleftrightarrow> \<not> 0 \<le> ?m" using sign_bit [OF m(2,1)] by (simp add: u)
    then show ?thesis unfolding top_bit by simp
  qed
  then have r: "f25519_normalize x = (if p25519 \<le> le_value y then low @ [ucast ?c] else y)"
    using ly v(1) m(3) by (simp add: e select_value)
  show "length (f25519_normalize x) = 32" using v(1) ly by (simp add: r)
  have "le_value (f25519_normalize x) = (if p25519 \<le> le_value y then le_value y - p25519 else le_value y)"
    using t m v(1) by (simp add: r le_value_append uint_low_byte u)
  also have "\<dots> = le_value y mod p25519"
    using yb le_value_bound(1) [of y] by (intro mod_once)
  finally show "le_value (f25519_normalize x) = le_value x mod p25519"
    by (simp add: vy mod_diff_eq [symmetric])
qed

lemma fold_bits: "(s XOR 1) AND 1 = (if s0 = 0 then 1 else 0)"
  if "s = s2 OR drop_bit 1 s2" "s2 = s1 OR drop_bit 2 s1" "s1 = s0 OR drop_bit 4 s0" for s0 :: "8 word"
proof -
  have "bit s 0 \<longleftrightarrow> (\<exists>n < 8. bit s0 n)"
    by (auto simp: that bit_simps less_Suc_eq numeral_eq_Suc)
  also have "\<dots> \<longleftrightarrow> s0 \<noteq> 0" by (auto simp: bit_eq_iff possible_bit_def dest: bit_imp_le_length)
  finally have b: "bit s 0 \<longleftrightarrow> s0 \<noteq> 0" .
  show ?thesis by (rule bit_word_eqI) (auto simp: bit_simps b bit_1_iff)
qed

lemma differences_zero:
  "length x = length y \<Longrightarrow> (foldl (\<lambda>s (a, b). s OR (a XOR b)) s (zip x y) = (0 :: 8 word)) \<longleftrightarrow> s = 0 \<and> x = y"
proof (induction x y arbitrary: s rule: list_induct2)
  case (Cons a x b y)
  have "a XOR b = 0 \<longleftrightarrow> a = b" by (metis xor_cancel xor_self_eq xor.right_neutral)
  with Cons show ?case by (auto simp: or_eq_0_iff)
qed simp

lemma eq_value: "length x = length y \<Longrightarrow> f25519_eq x y = (if x = y then 1 else 0)"
  unfolding f25519_eq_def Let_def by (simp only: fold_bits [OF refl refl refl] differences_zero) simp

section \<open>Powers\<close>

lemma field_mult:
  assumes "field_element a" and "field_element b"
  shows "field_element (f25519_mul__distinct a b)"
    and "field_value (f25519_mul__distinct a b) = field_value a * field_value b mod p25519"
  using mul_value [of a b] assms by (simp_all add: field_element_def [of a] field_element_def [of b] field_value_def mod_mult_eq)

text \<open>\<open>is_power x n r\<close>: \<open>r\<close> holds the \<open>n\<close>-th power of \<open>x\<close>.\<close>

definition is_power :: "octets \<Rightarrow> nat \<Rightarrow> octets \<Rightarrow> bool" where
  "is_power x n r \<longleftrightarrow> length r = 32 \<and> field_value r = le_value x ^ n mod p25519"

lemma is_power_self: "length x = 32 \<Longrightarrow> is_power x 1 x"
  by (simp add: is_power_def field_value_def)

lemma is_power_mult:
  assumes "is_power x m r" and "is_power x n s" and "k = m + n"
  shows "is_power x k (f25519_mul__distinct r s)"
proof -
  have "le_value r mod p25519 = le_value x ^ m mod p25519" "le_value s mod p25519 = le_value x ^ n mod p25519"
    using assms(1,2) by (simp_all add: is_power_def field_value_def)
  then have "le_value r * le_value s mod p25519 = le_value x ^ m * le_value x ^ n mod p25519" by (rule mod_mult_cong)
  then show ?thesis
    using mul_value [of r s] assms by (simp add: is_power_def field_element_def power_add)
qed

lemma is_power_square_times:
  assumes "length x = 32" and "is_power x (2 ^ k - 1) r"
  shows "is_power x (2 ^ (n + k) - 1) ((square_times x ^^ n) r)"
proof (induction n)
  case (Suc n)
  have "(2 ^ (Suc n + k) - 1 :: nat) = (2 ^ (n + k) - 1) + (2 ^ (n + k) - 1) + 1"
  proof -
    have "(2 :: nat) ^ (Suc n + k) = 2 * 2 ^ (n + k)" "1 \<le> (2 :: nat) ^ (n + k)" by simp_all
    then show ?thesis by linarith
  qed
  then show ?case
    using is_power_mult [OF is_power_mult [OF Suc Suc refl] is_power_self [OF assms(1)]]
    by (simp add: square_times_def)
qed (use assms(2) in simp)

lemma is_power_250:
  assumes "length x = 32"
  shows "is_power x (2 ^ 250 - 1) ((square_times x ^^ 248) (square_times x x))"
proof -
  have "is_power x (2 ^ 1 - 1) x" using is_power_self [OF assms] by simp
  from is_power_square_times [OF assms this, of 249] have "is_power x (2 ^ 250 - 1) ((square_times x ^^ 249) x)" by simp
  moreover have "(square_times x ^^ 249) x = (square_times x ^^ 248) (square_times x x)"
    using funpow_Suc_right [of 248 "square_times x"] by simp
  ultimately show ?thesis by simp
qed

lemma inv_power:
  assumes "length x = 32"
  shows "is_power x (2 ^ 255 - 21) (f25519_inv x)"
proof -
  let ?m = f25519_mul__distinct
  note x = is_power_self [OF assms]
  define r0 where "r0 = (square_times x ^^ 248) (square_times x x)"
  have r0: "is_power x (2 ^ 250 - 1) r0" unfolding r0_def by (rule is_power_250 [OF assms])
  have s1: "is_power x (2 ^ 251 - 2) (?m r0 r0)" by (rule is_power_mult [OF r0 r0]) simp
  have r1: "is_power x (2 ^ 252 - 4) (?m (?m r0 r0) (?m r0 r0))" by (rule is_power_mult [OF s1 s1]) simp
  define s2 where "s2 = ?m (?m (?m r0 r0) (?m r0 r0)) x"
  have s2: "is_power x (2 ^ 252 - 3) s2" unfolding s2_def by (rule is_power_mult [OF r1 x]) simp
  have r2: "is_power x (2 ^ 253 - 6) (?m s2 s2)" by (rule is_power_mult [OF s2 s2]) simp
  have s3: "is_power x (2 ^ 254 - 12) (?m (?m s2 s2) (?m s2 s2))" by (rule is_power_mult [OF r2 r2]) simp
  define r3 where "r3 = ?m (?m (?m s2 s2) (?m s2 s2)) x"
  have r3: "is_power x (2 ^ 254 - 11) r3" unfolding r3_def by (rule is_power_mult [OF s3 x]) simp
  have s4: "is_power x (2 ^ 255 - 22) (?m r3 r3)" by (rule is_power_mult [OF r3 r3]) simp
  have "is_power x (2 ^ 255 - 21) (?m (?m r3 r3) x)" by (rule is_power_mult [OF s4 x]) simp
  then show ?thesis
    by (simp only: f25519_inv_def f25519_inv__distinct_def Let_def r3_def s2_def r0_def)
qed

lemma exp2523_power:
  assumes "length x = 32"
  shows "is_power x (2 ^ 252 - 3) (exp2523 x)"
proof -
  let ?m = f25519_mul__distinct
  note x = is_power_self [OF assms]
  define r0 where "r0 = (square_times x ^^ 248) (square_times x x)"
  have r0: "is_power x (2 ^ 250 - 1) r0" unfolding r0_def by (rule is_power_250 [OF assms])
  have s1: "is_power x (2 ^ 251 - 2) (?m r0 r0)" by (rule is_power_mult [OF r0 r0]) simp
  have r1: "is_power x (2 ^ 252 - 4) (?m (?m r0 r0) (?m r0 r0))" by (rule is_power_mult [OF s1 s1]) simp
  have "is_power x (2 ^ 252 - 3) (?m (?m (?m r0 r0) (?m r0 r0)) x)" by (rule is_power_mult [OF r1 x]) simp
  then show ?thesis by (simp only: exp2523_def Let_def r0_def)
qed

lemma bytes_of_word:
  "le_value (map (\<lambda>i. ucast (drop_bit (8 * i) (c :: 32 word))) [0..<n]) = uint c mod 256 ^ n"
proof (induction n)
  case (Suc n)
  have "uint (ucast (drop_bit (8 * n) c) :: 8 word) = uint c div 256 ^ n mod 256"
    by (subst uint_low_byte) (simp_all only: uint_shift power_mult, simp_all)
  moreover have "uint c mod 256 ^ Suc n = 256 ^ n * (uint c div 256 ^ n mod 256) + uint c mod 256 ^ n"
    by (subst power_Suc2) (rule zmod_zmult2_eq, simp)
  ultimately show ?case using Suc by (simp add: le_value_append)
qed simp

lemma load_value: "length (f25519_load c) = 32" "le_value (f25519_load c) = uint c"
proof -
  show "length (f25519_load c) = 32" by (simp add: f25519_load_def F25519_SIZE_def)
  have "uint c mod 256 ^ 4 = uint c" using uint_bounded [of c] by (intro mod_pos_pos_trivial) simp_all
  then show "le_value (f25519_load c) = uint c"
    unfolding f25519_load_def by (simp only: le_value_append bytes_of_word le_value_zero)
qed

text \<open>
  The square root: the result squares to \<open>a\<close> when \<open>2 a\<close> raised to \<open>(p - 1) / 2\<close> is \<open>-1\<close>.  As 2 is no square
  modulo \<open>p\<close>, these are the nonzero squares.
\<close>

lemma power_four: "((2 * a) * ((2 * a) ^ n * (2 * a) ^ n))\<^sup>2 = (2 * a) ^ (4 * n + 2)" for a :: int
  by (simp add: power2_eq_square power_add power_mult power4_eq_xxxx power_mult_distrib mult_ac)

lemma minus_one_dvd: "z mod p = p - 1 \<Longrightarrow> p dvd z + 1" for z p :: int
  using mod_add_left_eq [of z p 1] by (simp add: dvd_eq_mod_eq_0)

lemma sqrt_algebra: "(v * a * (2 * a * (v * v) - 1))\<^sup>2 - a = ((2 * a * (v * v))\<^sup>2 + 1) * (a * a * (v * v) - a)" for a v :: int
  by (simp add: power2_eq_square algebra_simps)

lemma sqrt_value:
  assumes l: "length a = 32" and m: "(2 * le_value a) ^ (2 ^ 254 - 10) mod p25519 = p25519 - 1"
  shows "field_element (f25519_sqrt a)" and "(field_value (f25519_sqrt a))\<^sup>2 mod p25519 = field_value a"
proof -
  let ?m = f25519_mul__distinct and ?A = "le_value a" and ?p = p25519
  define x where "x = f25519_mul_c a 2"
  define v where "v = exp2523 x"
  define i where "i = f25519_sub (?m x (?m v v)) (f25519_load 1)"
  define N :: nat where "N = 2 ^ 252 - 3"
  have N: "4 * N + 2 = 2 ^ 254 - 10" by (simp add: N_def)
  let ?V = "(2 * ?A) ^ N" and ?X = "2 * ?A"
  have x: "length x = 32" "le_value x mod ?p = ?X mod ?p"
    using mul_c_value [OF l, of 2] by (simp_all add: x_def field_element_def field_value_def)
  have v: "length v = 32" "le_value v mod ?p = ?V mod ?p"
    using exp2523_power [OF x(1), folded N_def] power_mod [of "le_value x" ?p N] power_mod [of ?X ?p N] x(2)
    by (simp_all only: v_def is_power_def field_value_def)
  have y: "length (?m v v) = 32" "le_value (?m v v) mod ?p = ?V * ?V mod ?p"
    using mul_value [OF v(1) v(1)] mod_mult_cong [OF v(2) v(2)] by (simp_all only: field_element_def field_value_def)
  have xy: "length (?m x (?m v v)) = 32" "le_value (?m x (?m v v)) mod ?p = ?X * (?V * ?V) mod ?p"
    using mul_value [OF x(1) y(1)] mod_mult_cong [OF x(2) y(2)] by (simp_all only: field_element_def field_value_def)
  have "field_element (f25519_load 1)" using load_value [of 1] by (simp add: field_element_def p25519_value(2))
  then have i: "length i = 32" "le_value i mod ?p = (?X * (?V * ?V) - 1) mod ?p"
    using sub_value [OF xy(1)] mod_diff_cong [OF xy(2) refl, of 1] load_value(2) [of 1]
    by (simp_all only: i_def field_element_def field_value_def uint_1)
  have va: "length (?m v a) = 32" "le_value (?m v a) mod ?p = ?V * ?A mod ?p"
    using mul_value [OF v(1) l] mod_mult_cong [OF v(2) refl, of ?A] by (simp_all only: field_element_def field_value_def)
  have r: "f25519_sqrt a = ?m (?m v a) i"
    by (simp only: f25519_sqrt_def Let_def i_def v_def x_def)
  show "field_element (f25519_sqrt a)" unfolding r by (rule mul_value(1) [OF va(1) i(1)])
  have f: "field_value (f25519_sqrt a) = ?V * ?A * (?X * (?V * ?V) - 1) mod ?p"
    unfolding r mul_value(2) [OF va(1) i(1)] by (rule mod_mult_cong [OF va(2) i(2)])
  have "(?X * (?V * ?V))\<^sup>2 = ?X ^ (2 ^ 254 - 10)"
    unfolding power_four N ..
  with m have "?p dvd (?X * (?V * ?V))\<^sup>2 + 1"
    by (intro minus_one_dvd) (simp only:)
  then have "?p dvd (?V * ?A * (?X * (?V * ?V) - 1))\<^sup>2 - ?A"
    unfolding sqrt_algebra by (rule dvd_mult2)
  then show "(field_value (f25519_sqrt a))\<^sup>2 mod ?p = field_value a"
    unfolding f field_value_def [of a] power_mod by (simp only: mod_eq_dvd_iff)
qed

section \<open>The operations refine the arithmetic modulo p\<close>

text \<open>
  C40.  The field operations refine the arithmetic of the integers modulo \<open>p = 2^255 - 19\<close>, with the remainder of the
  number that the bytes denote as the abstraction.  On 32-byte operands below \<open>2 p\<close>, addition, subtraction,
  negation, multiplication and the multiplication by a constant below \<open>2^24\<close> commute with it and return 32 bytes
  below \<open>2 p\<close> again, so that the 16-bit and 32-bit carries never wrap; normalisation returns the remainder itself;
  the comparison of normal forms decides equality modulo \<open>p\<close>; and the selection takes one of its operands.
\<close>

theorem field_operations_refine:
  assumes "field_element a" and "field_element b" and "uint k < 2 ^ 24"
  shows "field_element (f25519_add a b) \<and> field_value (f25519_add a b) = (field_value a + field_value b) mod p25519 \<and>
    field_element (f25519_sub a b) \<and> field_value (f25519_sub a b) = (field_value a - field_value b) mod p25519 \<and>
    field_element (f25519_neg a) \<and> field_value (f25519_neg a) = (- field_value a) mod p25519 \<and>
    field_element (f25519_mul a b) \<and> field_value (f25519_mul a b) = field_value a * field_value b mod p25519 \<and>
    field_element (f25519_mul_c a k) \<and> field_value (f25519_mul_c a k) = uint k * field_value a mod p25519 \<and>
    length (f25519_normalize a) = 32 \<and> le_value (f25519_normalize a) = field_value a \<and>
    f25519_eq (f25519_normalize a) (f25519_normalize b) = (if field_value a = field_value b then 1 else 0) \<and>
    f25519_select a b 0 = a \<and> f25519_select a b 1 = b"
proof -
  have l: "length a = 32" "length b = 32" using assms(1,2) by (simp_all add: field_element_def)
  have n: "f25519_normalize a = f25519_normalize b \<longleftrightarrow> field_value a = field_value b"
    using normalize_value [OF l(1)] normalize_value [OF l(2)] le_value_inj by (auto simp: field_value_def)
  have e: "f25519_eq (f25519_normalize a) (f25519_normalize b) = (if field_value a = field_value b then 1 else 0)"
    using eq_value [of "f25519_normalize a" "f25519_normalize b"] normalize_value(1) [OF l(1)] normalize_value(1) [OF l(2)]
    by (simp add: n)
  show ?thesis
    using add_value [OF l] sub_value [OF l(1) assms(2)] neg_value [OF assms(1)] mul_value [OF l] mul_c_value [OF l(1) assms(3)]
      normalize_value [OF l(1)] select_value [of a b] l e
    by (simp add: field_value_def [of a] field_value_def [of b] f25519_mul_def mod_simps)
qed

theorem field_operations_refine_witness:
  "field_element f25519_one \<and> field_element f25519_zero \<and> uint (2 :: 32 word) < 2 ^ 24 \<and>
   field_value (f25519_sub f25519_zero f25519_one) = p25519 - 1 \<and> field_value (f25519_mul_c f25519_one 2) = 2"
proof -
  have "field_element f25519_one" "field_element f25519_zero" "uint (2 :: 32 word) < 2 ^ 24"
    "field_value f25519_one = 1" "field_value f25519_zero = 0"
    by (simp_all add: field_element_def field_value_def f25519_one_def f25519_zero_def le_value_zero p25519_value(2))
  with field_operations_refine [of f25519_zero f25519_one 2] field_operations_refine [of f25519_one f25519_zero 2]
  show ?thesis by (simp add: p25519_value(2))
qed

end
