(* ===== verification/Spec2Isabelle.thy ===== *)
theory Spec2Isabelle
  imports Uptane_Properties Client_Properties Secondaries Uptiny_Properties Asn1_Cer F25519
begin

text \<open>
  A verification development for aktualizr, an Uptane/TUF over-the-air update client.

  \<^bold>\<open>Parts.\<close>  The primary client (\<open>src/src/libaktualizr\<close>) reads signed JSON metadata of two
  repositories, the director and the images repository, checks it against trusted roots, stores it
  in an SQL database and decides which targets to install.  The partial-verification client for
  microcontrollers (\<open>src/partial/libuptiny\<close>) does the director part of this on a token stream.
\<close>

end
